theory Spec2Isabelle
  imports Main "HOL-Library.Word" "HOL-Library.Monad_Syntax"
begin

section \<open>Data model of leptjson.go\<close>

text \<open>
  The parse events are the untyped integer constants \<open>LeptParseOK = 0\<close>, ...,
  \<open>LeptParseInvalidStringChar = 7\<close> of the source; the program only compares them,
  so they are an enumeration here. \<open>LeptType\<close> is the source's enumeration of value tags.
\<close>

datatype parse_event =
    LeptParseOK
  | LeptParseExpectValue
  | LeptParseInvalidValue
  | LeptParseRootNotSingular
  | LeptParseNumberTooBig
  | LeptParseMissQuotationMark
  | LeptParseInvalidStringEscape
  | LeptParseInvalidStringChar

datatype LeptType =
    LeptNULL
  | LeptFALSE
  | LeptTRUE
  | LeptNUMBER
  | LeptSTRING
  | LeptARRAY
  | LeptOBJECT

text \<open>
  The type \<open>float64\<close> and its IEEE-754 operations are primitives of Go. The program is
  modelled over an arbitrary type \<open>'f\<close> of doubles and an arbitrary interpretation
  \<open>ops\<close> of the six operations it applies to them: the conversion \<open>float64(i)\<close> of an
  \<open>int\<close>, negation, \<open>+\<close>, \<open>*\<close>, \<open>/\<close> and \<open>math.Pow10\<close>. What is proved holds for every
  interpretation, the one of the Go runtime among them, and nothing is assumed about
  which doubles are equal.
\<close>

record 'f float64_ops =
  f64_of_int :: "int \<Rightarrow> 'f"
  f64_neg :: "'f \<Rightarrow> 'f"
  f64_add :: "'f \<Rightarrow> 'f \<Rightarrow> 'f"
  f64_mul :: "'f \<Rightarrow> 'f \<Rightarrow> 'f"
  f64_div :: "'f \<Rightarrow> 'f \<Rightarrow> 'f"
  f64_Pow10 :: "int \<Rightarrow> 'f"

text \<open>
  One interpretation, for running the model on concrete inputs: a double is written as
  the expression of the operations that produce it.
\<close>

datatype float64_expr =
    Float64_of_int int
  | Float64_neg float64_expr
  | Float64_add float64_expr float64_expr
  | Float64_mul float64_expr float64_expr
  | Float64_div float64_expr float64_expr
  | Pow10 int

definition expr_ops :: "float64_expr float64_ops" where
  "expr_ops =
     \<lparr>f64_of_int = Float64_of_int, f64_neg = Float64_neg, f64_add = Float64_add,
      f64_mul = Float64_mul, f64_div = Float64_div, f64_Pow10 = Pow10\<rparr>"

text \<open>Go strings are byte sequences: \<open>string\<close> is a list of 8-bit characters.\<close>

record 'f LeptValue =
  "typ" :: LeptType
  n :: 'f
  s :: string

record LeptContext =
  json :: string

definition NewLeptValue :: "'f float64_ops \<Rightarrow> 'f LeptValue" where
  "NewLeptValue ops = \<lparr>typ = LeptFALSE, n = f64_of_int ops 0, s = []\<rparr>"

definition NewLeptContext :: "string \<Rightarrow> LeptContext" where
  "NewLeptContext input = \<lparr>json = input\<rparr>"

section \<open>Panics, indexing and slicing\<close>

text \<open>
  A function that can panic returns an \<open>option\<close>: \<open>None\<close> is the panic, \<open>Some r\<close>
  the normal return. \<open>at str i\<close> is the index expression \<open>str[i]\<close>, \<open>slice_from str i\<close>
  is \<open>str[i:]\<close> and \<open>slice_to str i\<close> is \<open>str[:i]\<close>; each panics out of range.
\<close>

definition at :: "string \<Rightarrow> nat \<Rightarrow> char option" where
  "at str i = (if i < length str then Some (str ! i) else None)"

definition slice_from :: "string \<Rightarrow> nat \<Rightarrow> string option" where
  "slice_from str i = (if i \<le> length str then Some (drop i str) else None)"

definition slice_to :: "string \<Rightarrow> nat \<Rightarrow> string option" where
  "slice_to str i = (if i \<le> length str then Some (take i str) else None)"

text \<open>\<open>expect\<close> panics with \<open>ErrReachEnd\<close> on empty input and with \<open>ErrUnexpectChar\<close>
  on a different first byte.\<close>

definition expect :: "LeptContext \<Rightarrow> char \<Rightarrow> LeptContext option" where
  "expect c ch =
     (if length (json c) = 0 then None
      else do {
        first \<leftarrow> at (json c) 0;
        if first \<noteq> ch then None
        else do {
          rest \<leftarrow> slice_from (json c) 1;
          Some (c\<lparr>json := rest\<rparr>)
        }
      })"

section \<open>Whitespace\<close>

definition is_ws :: "char \<Rightarrow> bool" where
  "is_ws ch = (ch = CHR '' '' \<or> ch = CHR 0x09 \<or> ch = CHR 0x0A \<or> ch = CHR 0x0D)"

function LeptParseWhitespace_loop :: "string \<Rightarrow> nat \<Rightarrow> nat option" where
  "LeptParseWhitespace_loop str i =
     (if i < length str then
        (case at str i of
           None \<Rightarrow> None
         | Some ch \<Rightarrow> if is_ws ch then LeptParseWhitespace_loop str (i + 1) else Some i)
      else Some i)"
  by pat_completeness auto
termination
  by (relation "measure (\<lambda>(str, i). length str - i)") auto

definition LeptParseWhitespace :: "LeptContext \<Rightarrow> LeptContext option" where
  "LeptParseWhitespace c = do {
     i \<leftarrow> LeptParseWhitespace_loop (json c) 0;
     rest \<leftarrow> slice_from (json c) i;
     Some (c\<lparr>json := rest\<rparr>)
   }"

section \<open>Literals\<close>

text \<open>
  \<open>ne str i ch\<close> is the comparison \<open>str[i] != ch\<close>; \<open>or_else\<close> and \<open>and_also\<close> are
  Go's short-circuit \<open>||\<close> and \<open>&&\<close>: the right operand is evaluated (and can panic)
  only when the left one does not decide.
\<close>

definition ne :: "string \<Rightarrow> nat \<Rightarrow> char \<Rightarrow> bool option" where
  "ne str i ch = do { b \<leftarrow> at str i; Some (b \<noteq> ch) }"

definition eq :: "string \<Rightarrow> nat \<Rightarrow> char \<Rightarrow> bool option" where
  "eq str i ch = do { b \<leftarrow> at str i; Some (b = ch) }"

definition or_else :: "bool option \<Rightarrow> bool option \<Rightarrow> bool option" where
  "or_else x y = do { a \<leftarrow> x; if a then Some True else y }"

definition and_also :: "bool option \<Rightarrow> bool option \<Rightarrow> bool option" where
  "and_also x y = do { a \<leftarrow> x; if a then y else Some False }"

definition LeptParseNull ::
  "LeptContext \<Rightarrow> 'f LeptValue \<Rightarrow> (parse_event \<times> LeptContext \<times> 'f LeptValue) option" where
  "LeptParseNull c v = do {
     c1 \<leftarrow> expect c (CHR ''n'');
     if length (json c1) < 4 - 1 then Some (LeptParseInvalidValue, c1, v)
     else do {
       differs \<leftarrow> or_else (ne (json c1) 0 (CHR ''u''))
                  (or_else (ne (json c1) 1 (CHR ''l'')) (ne (json c1) 2 (CHR ''l'')));
       if differs then Some (LeptParseInvalidValue, c1, v)
       else do {
         rest \<leftarrow> slice_from (json c1) (4 - 1);
         Some (LeptParseOK, c1\<lparr>json := rest\<rparr>, v\<lparr>typ := LeptNULL\<rparr>)
       }
     }
   }"

definition LeptParseTrue ::
  "LeptContext \<Rightarrow> 'f LeptValue \<Rightarrow> (parse_event \<times> LeptContext \<times> 'f LeptValue) option" where
  "LeptParseTrue c v = do {
     c1 \<leftarrow> expect c (CHR ''t'');
     if length (json c1) < 4 - 1 then Some (LeptParseInvalidValue, c1, v)
     else do {
       differs \<leftarrow> or_else (ne (json c1) 0 (CHR ''r''))
                  (or_else (ne (json c1) 1 (CHR ''u'')) (ne (json c1) 2 (CHR ''e'')));
       if differs then Some (LeptParseInvalidValue, c1, v)
       else do {
         rest \<leftarrow> slice_from (json c1) (4 - 1);
         Some (LeptParseOK, c1\<lparr>json := rest\<rparr>, v\<lparr>typ := LeptTRUE\<rparr>)
       }
     }
   }"

definition LeptParseFalse ::
  "LeptContext \<Rightarrow> 'f LeptValue \<Rightarrow> (parse_event \<times> LeptContext \<times> 'f LeptValue) option" where
  "LeptParseFalse c v = do {
     c1 \<leftarrow> expect c (CHR ''f'');
     if length (json c1) < 5 - 1 then Some (LeptParseInvalidValue, c1, v)
     else do {
       differs \<leftarrow> or_else (ne (json c1) 0 (CHR ''a''))
                  (or_else (ne (json c1) 1 (CHR ''l''))
                  (or_else (ne (json c1) 2 (CHR ''s'')) (ne (json c1) 3 (CHR ''e''))));
       if differs then Some (LeptParseInvalidValue, c1, v)
       else do {
         rest \<leftarrow> slice_from (json c1) (5 - 1);
         Some (LeptParseOK, c1\<lparr>json := rest\<rparr>, v\<lparr>typ := LeptFALSE\<rparr>)
       }
     }
   }"

section \<open>Numbers\<close>

text \<open>
  The \<open>error\<close> values the number functions return: \<open>IllegalInput\<close> of \<open>strtod\<close>, the
  errors of \<open>parseExp\<close> and \<open>parseFrac\<close>, and the two errors of \<open>strconv.Atoi\<close>.
  \<open>None\<close> is \<open>nil\<close>.
\<close>

datatype go_error = IllegalInput | NotExp | NotFrac | ErrSyntax | ErrRange

definition isDigit :: "char \<Rightarrow> bool" where
  "isDigit ch = ((of_char ch :: nat) \<ge> of_char (CHR ''0'') \<and> (of_char ch :: nat) \<le> of_char (CHR ''9''))"

text \<open>
  \<open>strconv.Atoi\<close> belongs to Go's standard library. It is modelled by its documented
  behaviour for base 10 and a 64-bit \<open>int\<close>: an optional sign and at least one decimal
  digit, else a syntax error; a value outside \<open>-2^63 .. 2^63 - 1\<close> is a range error.
\<close>

definition decimal_value :: "string \<Rightarrow> int" where
  "decimal_value ds = foldl (\<lambda>a ch. a * 10 + (int (of_char ch) - 48)) 0 ds"

definition Atoi :: "string \<Rightarrow> int \<times> go_error option" where
  "Atoi str =
     (let minus = (str \<noteq> [] \<and> hd str = CHR ''-'');
          body = (if str \<noteq> [] \<and> (hd str = CHR ''+'' \<or> hd str = CHR ''-'') then tl str else str)
      in if body = [] \<or> \<not> list_all isDigit body then (0, Some ErrSyntax)
         else if minus \<and> decimal_value body > 2 ^ 63 then (- (2 ^ 63), Some ErrRange)
         else if \<not> minus \<and> decimal_value body > 2 ^ 63 - 1 then (2 ^ 63 - 1, Some ErrRange)
         else (if minus then - decimal_value body else decimal_value body, None))"

function parseInteger_loop :: "string \<Rightarrow> nat \<Rightarrow> nat option" where
  "parseInteger_loop input i =
     (if i < length input then
        (case at input i of
           None \<Rightarrow> None
         | Some ch \<Rightarrow> if isDigit ch then parseInteger_loop input (i + 1) else Some i)
      else Some i)"
  by pat_completeness auto
termination
  by (relation "measure (\<lambda>(input, i). length input - i)") auto

definition parseInteger :: "string \<Rightarrow> (string \<times> int \<times> go_error option) option" where
  "parseInteger input = do {
     i \<leftarrow> parseInteger_loop input 0;
     digits \<leftarrow> slice_to input i;
     (integer, err) \<leftarrow> Some (Atoi digits);
     if err \<noteq> None then Some ([], 0, err)
     else do {
       rest \<leftarrow> slice_from input i;
       Some (rest, integer, None)
     }
   }"

definition parseFrac :: "string \<Rightarrow> (string \<times> int \<times> go_error option) option" where
  "parseFrac input = do {
     c0 \<leftarrow> at input 0;
     if c0 = CHR ''.'' then do {
       rest \<leftarrow> slice_from input 1;
       parseInteger rest
     }
     else Some ([], 0, Some NotFrac)
   }"

definition parseExp :: "string \<Rightarrow> (string \<times> int \<times> go_error option) option" where
  "parseExp input = do {
     isexp \<leftarrow> or_else (eq input 0 (CHR ''e'')) (eq input 0 (CHR ''E''));
     if isexp then
       if length input = 1 then Some ([], 0, Some NotExp)
       else do {
         signed \<leftarrow> or_else (eq input 1 (CHR ''-'')) (eq input 1 (CHR ''+''));
         expNeg \<leftarrow> (if signed then eq input 1 (CHR ''-'') else Some False);
         input1 \<leftarrow> (if signed then slice_from input 2 else slice_from input 1);
         (input2, exp, err) \<leftarrow> parseInteger input1;
         if err \<noteq> None then Some ([], 0, err)
         else if expNeg then Some (input2, - exp, err)
         else Some (input2, exp, err)
       }
     else Some ([], 0, Some NotExp)
   }"

text \<open>
  The loop \<open>for j := n - 1; j > len(input); j-- { frac *= 10 }\<close> of \<open>strtod\<close>; \<open>frac\<close>
  is a 64-bit \<open>int\<close>, whose multiplication wraps around.
\<close>

function strtod_frac_loop :: "int \<Rightarrow> int \<Rightarrow> 64 word \<Rightarrow> 64 word" where
  "strtod_frac_loop j m frac = (if j > m then strtod_frac_loop (j - 1) m (frac * 10) else frac)"
  by pat_completeness auto
termination
  by (relation "measure (\<lambda>(j, m, frac). nat (j - m))") auto

text \<open>The common ending \<open>if neg { return -ret, "", nil }; return ret, "", nil\<close>.\<close>

definition strtod_return ::
  "'f float64_ops \<Rightarrow> bool \<Rightarrow> 'f \<Rightarrow> ('f \<times> string \<times> go_error option) option" where
  "strtod_return ops neg ret = (if neg then Some (f64_neg ops ret, [], None) else Some (ret, [], None))"

text \<open>
  \<open>strtod\<close> from the statement \<open>n = len(input)\<close> after the call of \<open>parseInteger\<close>
  to its end: \<open>input\<close> is what follows the integer part, \<open>integer\<close> its value.
\<close>

definition strtod_rest ::
  "'f float64_ops \<Rightarrow> bool \<Rightarrow> string \<Rightarrow> int \<Rightarrow> ('f \<times> string \<times> go_error option) option" where
  "strtod_rest ops neg input integer =
     (if length input \<le> 0 then strtod_return ops neg (f64_of_int ops integer)
      else do {
        let ret = f64_of_int ops integer;
        c0 \<leftarrow> at input 0;
        if c0 = CHR ''.'' then do {
          (input1, decimal, err) \<leftarrow> parseFrac input;
          if err \<noteq> None then Some (ret, [], err)
          else do {
            let frac = strtod_frac_loop (int (length input) - 1) (int (length input1)) 1;
            let ret1 = f64_add ops ret (f64_div ops (f64_of_int ops decimal) (f64_of_int ops (sint frac)));
            if length input1 = 0 then strtod_return ops neg ret1
            else do {
              isexp \<leftarrow> or_else (eq input1 0 (CHR ''e'')) (eq input1 0 (CHR ''E''));
              if \<not> isexp then Some (ret1, [], Some IllegalInput)
              else do {
                (input2, exp, err2) \<leftarrow> parseExp input1;
                if err2 \<noteq> None \<or> length input2 \<noteq> 0 then Some (ret1, [], Some IllegalInput)
                else strtod_return ops neg (f64_mul ops ret1 (f64_Pow10 ops exp))
              }
            }
          }
        }
        else do {
          isexp \<leftarrow> or_else (eq input 0 (CHR ''e'')) (eq input 0 (CHR ''E''));
          if isexp then do {
            (input1, exp, err) \<leftarrow> parseExp input;
            if err \<noteq> None then Some (ret, [], err)
            else if length input1 \<noteq> 0 then Some (ret, [], Some IllegalInput)
            else strtod_return ops neg (f64_mul ops ret (f64_Pow10 ops exp))
          }
          else Some (ret, [], Some IllegalInput)
        }
      })"

text \<open>
  \<open>strtod\<close> from \<open>var ret float64 = 0\<close> to the call of \<open>parseInteger\<close>: \<open>input\<close> is the
  text behind the optional minus sign, \<open>neg\<close> tells whether there was one.
\<close>

definition strtod_int ::
  "'f float64_ops \<Rightarrow> bool \<Rightarrow> string \<Rightarrow> ('f \<times> string \<times> go_error option) option" where
  "strtod_int ops neg input = do {
     let ret = f64_of_int ops 0;
     if length input = 0 then Some (ret, [], Some IllegalInput)
     else do {
       single0 \<leftarrow> and_also (eq input 0 (CHR ''0'')) (Some (length input = 1));
       if single0 then Some (ret, [], None)
       else do {
         leading0 \<leftarrow> and_also (eq input 0 (CHR ''0''))
                      (and_also (Some (length input > 1))
                         (do { follow \<leftarrow> or_else (eq input 1 (CHR ''.''))
                                          (or_else (eq input 1 (CHR ''e'')) (eq input 1 (CHR ''E'')));
                               Some (\<not> follow) }));
         if leading0 then Some (ret, [], Some IllegalInput)
         else do {
           c0 \<leftarrow> at input 0;
           if \<not> isDigit c0 then Some (ret, [], Some IllegalInput)
           else do {
             (input1, integer, err) \<leftarrow> parseInteger input;
             if err \<noteq> None then Some (ret, [], err)
             else strtod_rest ops neg input1 integer
           }
         }
       }
     }
   }"

definition strtod :: "'f float64_ops \<Rightarrow> string \<Rightarrow> ('f \<times> string \<times> go_error option) option" where
  "strtod ops input0 = do {
     first \<leftarrow> at input0 0;
     let neg = (first = CHR ''-'');
     input \<leftarrow> (if first = CHR ''-'' then slice_from input0 1 else Some input0);
     strtod_int ops neg input
   }"

definition LeptParseNumber ::
  "'f float64_ops \<Rightarrow> LeptContext \<Rightarrow> 'f LeptValue \<Rightarrow> (parse_event \<times> LeptContext \<times> 'f LeptValue) option" where
  "LeptParseNumber ops c v = do {
     (ret, tail, err) \<leftarrow> strtod ops (json c);
     let v1 = v\<lparr>n := ret\<rparr>;
     if err \<noteq> None then Some (LeptParseInvalidValue, c, v1)
     else Some (LeptParseOK, c\<lparr>json := tail\<rparr>, v1\<lparr>typ := LeptNUMBER\<rparr>)
   }"

section \<open>Strings\<close>

definition LeptSetString :: "'f LeptValue \<Rightarrow> string \<Rightarrow> 'f LeptValue" where
  "LeptSetString v str = v\<lparr>s := str, typ := LeptSTRING\<rparr>"

text \<open>
  The inner \<open>switch c.json[i+1]\<close> of \<open>LeptParseString\<close>: the byte written to the buffer
  for each escape character, \<open>None\<close> for the \<open>default\<close> branch.
\<close>

definition escape :: "char \<Rightarrow> char option" where
  "escape ch =
     (if ch = CHR 0x22 then Some (CHR 0x22)
      else if ch = CHR 0x5C then Some (CHR 0x5C)
      else if ch = CHR ''b'' then Some (CHR 0x08)
      else if ch = CHR ''f'' then Some (CHR 0x0C)
      else if ch = CHR ''n'' then Some (CHR 0x0A)
      else if ch = CHR ''r'' then Some (CHR 0x0D)
      else if ch = CHR ''t'' then Some (CHR 0x09)
      else if ch = CHR ''/'' then Some (CHR ''/'')
      else None)"

text \<open>
  The \<open>for\<close> loop of \<open>LeptParseString\<close>, with the buffer \<open>stack\<close> and the index \<open>i\<close>
  as arguments. An escape advances \<open>i\<close> by two (the \<open>i++\<close> of the branch and the one
  of the loop).
\<close>

function LeptParseString_loop ::
  "LeptContext \<Rightarrow> 'f LeptValue \<Rightarrow> string \<Rightarrow> nat \<Rightarrow> (parse_event \<times> LeptContext \<times> 'f LeptValue) option" where
  "LeptParseString_loop c v stack i =
     (if i < length (json c) then
        (case at (json c) i of
           None \<Rightarrow> None
         | Some ch \<Rightarrow>
             if ch = CHR 0x22 then
               (case slice_from (json c) (i + 1) of
                  None \<Rightarrow> None
                | Some rest \<Rightarrow> Some (LeptParseOK, c\<lparr>json := rest\<rparr>, LeptSetString v stack))
             else if ch = CHR 0x5C then
               if i + 1 \<ge> length (json c) then Some (LeptParseInvalidStringEscape, c, v)
               else
                 (case at (json c) (i + 1) of
                    None \<Rightarrow> None
                  | Some e \<Rightarrow>
                      (case escape e of
                         None \<Rightarrow> Some (LeptParseInvalidStringEscape, c, v)
                       | Some b \<Rightarrow> LeptParseString_loop c v (stack @ [b]) (i + 1 + 1)))
             else if (of_char ch :: nat) < 0x20 then Some (LeptParseInvalidStringChar, c, v)
             else LeptParseString_loop c v (stack @ [ch]) (i + 1))
      else Some (LeptParseMissQuotationMark, c, v))"
  by pat_completeness auto
termination
  by (relation "measure (\<lambda>(c, v, stack, i). length (json c) - i)") auto

definition LeptParseString ::
  "LeptContext \<Rightarrow> 'f LeptValue \<Rightarrow> (parse_event \<times> LeptContext \<times> 'f LeptValue) option" where
  "LeptParseString c v = do {
     c1 \<leftarrow> expect c (CHR 0x22);
     LeptParseString_loop c1 v [] 0
   }"

section \<open>Values and the entry point\<close>

definition LeptParseValue ::
  "'f float64_ops \<Rightarrow> LeptContext \<Rightarrow> 'f LeptValue \<Rightarrow> (parse_event \<times> LeptContext \<times> 'f LeptValue) option" where
  "LeptParseValue ops c v =
     (if length (json c) = 0 then Some (LeptParseExpectValue, c, v)
      else do {
        c0 \<leftarrow> at (json c) 0;
        if c0 = CHR ''n'' then LeptParseNull c v
        else if c0 = CHR ''t'' then LeptParseTrue c v
        else if c0 = CHR ''f'' then LeptParseFalse c v
        else if c0 = CHR 0x22 then LeptParseString c v
        else LeptParseNumber ops c v
      })"

text \<open>The output pointer \<open>v\<close> is an \<open>option\<close>: \<open>None\<close> is \<open>nil\<close>, on which \<open>LeptParse\<close> panics.\<close>

definition LeptParse ::
  "'f float64_ops \<Rightarrow> 'f LeptValue option \<Rightarrow> string \<Rightarrow> (parse_event \<times> 'f LeptValue) option" where
  "LeptParse ops vp input =
     (case vp of
        None \<Rightarrow> None
      | Some v0 \<Rightarrow> do {
          let c = NewLeptContext input;
          let v = v0\<lparr>typ := LeptNULL\<rparr>;
          c1 \<leftarrow> LeptParseWhitespace c;
          (ret, c2, v2) \<leftarrow> LeptParseValue ops c1 v;
          if ret \<noteq> LeptParseOK then Some (ret, v2)
          else do {
            c3 \<leftarrow> LeptParseWhitespace c2;
            if length (json c3) \<noteq> 0 then Some (LeptParseRootNotSingular, v2)
            else Some (LeptParseOK, v2)
          }
        })"

section \<open>Predicates used in the statements\<close>

text \<open>
  Two predicates for stating facts about number texts: \<open>digits ds\<close> says that \<open>ds\<close> is a
  non-empty run of decimal digits, \<open>no_digit_ahead rest\<close> that \<open>rest\<close> is empty or starts
  with a byte that is not a digit.
\<close>

definition digits :: "string \<Rightarrow> bool" where
  "digits ds = (ds \<noteq> [] \<and> list_all isDigit ds)"

definition no_digit_ahead :: "string \<Rightarrow> bool" where
  "no_digit_ahead rest = (case rest of [] \<Rightarrow> True | x # _ \<Rightarrow> \<not> isDigit x)"

text \<open>
  \<open>malformed_exp t\<close> describes a text \<open>t\<close> behind \<open>e\<close> or \<open>E\<close> that is no exponent: it is
  empty, or a sign not followed by a digit, or starts with a byte that is neither a sign
  nor a digit. \<open>number_byte\<close> is the alphabet of number texts.
\<close>

definition malformed_exp :: "string \<Rightarrow> bool" where
  "malformed_exp t =
     (case t of
        [] \<Rightarrow> True
      | x # t' \<Rightarrow> if x = CHR ''-'' \<or> x = CHR ''+'' then no_digit_ahead t' else \<not> isDigit x)"

definition number_byte :: "char \<Rightarrow> bool" where
  "number_byte ch =
     (isDigit ch \<or> ch = CHR ''-'' \<or> ch = CHR ''+'' \<or> ch = CHR ''.'' \<or> ch = CHR ''e'' \<or> ch = CHR ''E'')"

text \<open>
  \<open>fits ds\<close>: the digit run \<open>ds\<close> denotes a value that a 64-bit \<open>int\<close> holds.
  \<open>int_part ds\<close>: moreover \<open>ds\<close> is \<open>0\<close> or does not start with a zero, as the integer
  part of a number must.
\<close>

definition fits :: "string \<Rightarrow> bool" where
  "fits ds = (digits ds \<and> decimal_value ds \<le> 2 ^ 63 - 1)"

definition int_part :: "string \<Rightarrow> bool" where
  "int_part ds = (fits ds \<and> (ds = ''0'' \<or> hd ds \<noteq> CHR ''0''))"

text \<open>
  \<open>string_chars p\<close>: the text \<open>p\<close> is a sequence of unescaped bytes from \<open>0x20\<close> on
  other than the quotation mark and the backslash, and of backslash escapes that
  \<open>escape\<close> knows.
\<close>

fun string_chars :: "string \<Rightarrow> bool" where
  "string_chars [] = True"
| "string_chars [ch] = (ch \<noteq> CHR 0x22 \<and> ch \<noteq> CHR 0x5C \<and> \<not> (of_char ch :: nat) < 0x20)"
| "string_chars (ch # e # rest) =
     (if ch = CHR 0x22 then False
      else if ch = CHR 0x5C then escape e \<noteq> None \<and> string_chars rest
      else \<not> (of_char ch :: nat) < 0x20 \<and> string_chars (e # rest))"





section \<open>Basic facts about indexing, slicing and the short-circuit operators\<close>

declare LeptParseWhitespace_loop.simps [simp del]
declare parseInteger_loop.simps [simp del]
declare LeptParseString_loop.simps [simp del]
declare strtod_frac_loop.simps [simp del]

lemma expr_ops_simps [simp]:
  "f64_of_int expr_ops = Float64_of_int" "f64_neg expr_ops = Float64_neg"
  "f64_add expr_ops = Float64_add" "f64_mul expr_ops = Float64_mul"
  "f64_div expr_ops = Float64_div" "f64_Pow10 expr_ops = Pow10"
  by (simp_all add: expr_ops_def)

lemma at_Nil [simp]: "at [] i = None"
  by (simp add: at_def)

lemma at_Cons_0 [simp]: "at (x # xs) 0 = Some x"
  by (simp add: at_def)

lemma at_Cons_Suc [simp]: "at (x # xs) (Suc i) = at xs i"
  by (simp add: at_def)

lemma at_Cons_numeral [simp]: "at (x # xs) (numeral k) = at xs (pred_numeral k)"
  by (simp add: at_def)

lemma at_less: "i < length xs \<Longrightarrow> at xs i = Some (xs ! i)"
  by (simp add: at_def)

lemma slice_from_0 [simp]: "slice_from xs 0 = Some xs"
  by (simp add: slice_from_def)

lemma slice_from_Nil_Suc [simp]: "slice_from [] (Suc i) = None"
  by (simp add: slice_from_def)

lemma slice_from_Nil_numeral [simp]: "slice_from [] (numeral k) = None"
  by (simp add: slice_from_def)

lemma slice_from_Cons_Suc [simp]: "slice_from (x # xs) (Suc i) = slice_from xs i"
  by (simp add: slice_from_def)

lemma slice_from_Cons_numeral [simp]:
  "slice_from (x # xs) (numeral k) = slice_from xs (pred_numeral k)"
  by (simp add: slice_from_def)

lemma slice_from_le: "i \<le> length xs \<Longrightarrow> slice_from xs i = Some (drop i xs)"
  by (simp add: slice_from_def)

lemma slice_to_le: "i \<le> length xs \<Longrightarrow> slice_to xs i = Some (take i xs)"
  by (simp add: slice_to_def)

lemma expect_Nil [simp]: "expect \<lparr>json = []\<rparr> ch = None"
  by (simp add: expect_def)

lemma expect_Cons [simp]:
  "expect \<lparr>json = x # xs\<rparr> ch = (if x = ch then Some \<lparr>json = xs\<rparr> else None)"
  by (simp add: expect_def)

lemma or_else_Some [simp]: "or_else (Some a) y = (if a then Some True else y)"
  by (simp add: or_else_def)

lemma and_also_Some [simp]: "and_also (Some a) y = (if a then y else Some False)"
  by (simp add: and_also_def)

lemma ne_Cons_0 [simp]: "ne (x # xs) 0 ch = Some (x \<noteq> ch)"
  by (simp add: ne_def)

lemma ne_Cons_Suc [simp]: "ne (x # xs) (Suc i) ch = ne xs i ch"
  by (simp add: ne_def)

lemma ne_Cons_numeral [simp]: "ne (x # xs) (numeral k) ch = ne xs (pred_numeral k) ch"
  by (simp add: ne_def)

lemma eq_Cons_0 [simp]: "eq (x # xs) 0 ch = Some (x = ch)"
  by (simp add: eq_def)

lemma eq_Cons_Suc [simp]: "eq (x # xs) (Suc i) ch = eq xs i ch"
  by (simp add: eq_def)

lemma eq_Cons_numeral [simp]: "eq (x # xs) (numeral k) ch = eq xs (pred_numeral k) ch"
  by (simp add: eq_def)

section \<open>The literal parsers\<close>

lemma LeptParseNull_mismatch:
  assumes "take 3 r \<noteq> ''ull''"
  shows "LeptParseNull \<lparr>json = CHR ''n'' # r\<rparr> v = Some (LeptParseInvalidValue, \<lparr>json = r\<rparr>, v)"
proof (cases r)
  case Nil
  then show ?thesis by (simp add: LeptParseNull_def)
next
  case r1: (Cons a r1)
  show ?thesis
  proof (cases r1)
    case Nil
    with r1 show ?thesis by (simp add: LeptParseNull_def)
  next
    case r2: (Cons b r2)
    with r1 assms show ?thesis by (cases r2) (simp_all add: LeptParseNull_def)
  qed
qed

lemma LeptParseTrue_mismatch:
  assumes "take 3 r \<noteq> ''rue''"
  shows "LeptParseTrue \<lparr>json = CHR ''t'' # r\<rparr> v = Some (LeptParseInvalidValue, \<lparr>json = r\<rparr>, v)"
proof (cases r)
  case Nil
  then show ?thesis by (simp add: LeptParseTrue_def)
next
  case r1: (Cons a r1)
  show ?thesis
  proof (cases r1)
    case Nil
    with r1 show ?thesis by (simp add: LeptParseTrue_def)
  next
    case r2: (Cons b r2)
    with r1 assms show ?thesis by (cases r2) (simp_all add: LeptParseTrue_def)
  qed
qed

lemma LeptParseFalse_mismatch:
  assumes "take 4 r \<noteq> ''alse''"
  shows "LeptParseFalse \<lparr>json = CHR ''f'' # r\<rparr> v = Some (LeptParseInvalidValue, \<lparr>json = r\<rparr>, v)"
proof (cases r)
  case Nil
  then show ?thesis by (simp add: LeptParseFalse_def)
next
  case r1: (Cons a r1)
  show ?thesis
  proof (cases r1)
    case Nil
    with r1 show ?thesis by (simp add: LeptParseFalse_def)
  next
    case r2: (Cons b r2)
    show ?thesis
    proof (cases r2)
      case Nil
      with r1 r2 show ?thesis by (simp add: LeptParseFalse_def)
    next
      case r3: (Cons d r3)
      with r1 r2 assms show ?thesis by (cases r3) (simp_all add: LeptParseFalse_def)
    qed
  qed
qed

lemma LeptParseNull_match:
  "LeptParseNull \<lparr>json = ''null'' @ rest\<rparr> v = Some (LeptParseOK, \<lparr>json = rest\<rparr>, v\<lparr>typ := LeptNULL\<rparr>)"
  by (simp add: LeptParseNull_def)

lemma LeptParseTrue_match:
  "LeptParseTrue \<lparr>json = ''true'' @ rest\<rparr> v = Some (LeptParseOK, \<lparr>json = rest\<rparr>, v\<lparr>typ := LeptTRUE\<rparr>)"
  by (simp add: LeptParseTrue_def)

lemma LeptParseFalse_match:
  "LeptParseFalse \<lparr>json = ''false'' @ rest\<rparr> v = Some (LeptParseOK, \<lparr>json = rest\<rparr>, v\<lparr>typ := LeptFALSE\<rparr>)"
  by (simp add: LeptParseFalse_def)

text \<open>
  Claim C9. Each of the parsers for \<open>null\<close>, \<open>true\<close> and \<open>false\<close>, on an input that begins
  with its literal, returns \<open>LeptParseOK\<close>, sets the corresponding type tag and leaves
  the cursor exactly behind the literal. On an input that begins with the literal's
  first byte and goes on with anything but the remaining spelling (\<open>ull\<close>, \<open>rue\<close>,
  \<open>alse\<close>), be it a different byte or too short an input, it returns
  \<open>LeptParseInvalidValue\<close> and the value is unchanged.
\<close>

theorem literal_parsers:
  "LeptParseNull \<lparr>json = ''null'' @ rest\<rparr> v
     = Some (LeptParseOK, \<lparr>json = rest\<rparr>, v\<lparr>typ := LeptNULL\<rparr>) \<and>
   LeptParseTrue \<lparr>json = ''true'' @ rest\<rparr> v
     = Some (LeptParseOK, \<lparr>json = rest\<rparr>, v\<lparr>typ := LeptTRUE\<rparr>) \<and>
   LeptParseFalse \<lparr>json = ''false'' @ rest\<rparr> v
     = Some (LeptParseOK, \<lparr>json = rest\<rparr>, v\<lparr>typ := LeptFALSE\<rparr>) \<and>
   (take 3 r \<noteq> ''ull'' \<longrightarrow>
      LeptParseNull \<lparr>json = CHR ''n'' # r\<rparr> v = Some (LeptParseInvalidValue, \<lparr>json = r\<rparr>, v)) \<and>
   (take 3 r \<noteq> ''rue'' \<longrightarrow>
      LeptParseTrue \<lparr>json = CHR ''t'' # r\<rparr> v = Some (LeptParseInvalidValue, \<lparr>json = r\<rparr>, v)) \<and>
   (take 4 r \<noteq> ''alse'' \<longrightarrow>
      LeptParseFalse \<lparr>json = CHR ''f'' # r\<rparr> v = Some (LeptParseInvalidValue, \<lparr>json = r\<rparr>, v))"
  using LeptParseNull_match LeptParseTrue_match LeptParseFalse_match
    LeptParseNull_mismatch LeptParseTrue_mismatch LeptParseFalse_mismatch
  by blast

theorem literal_parsers_witness:
  "LeptParseNull \<lparr>json = ''null,1''\<rparr> (NewLeptValue expr_ops)
     = Some (LeptParseOK, \<lparr>json = '',1''\<rparr>, (NewLeptValue expr_ops)\<lparr>typ := LeptNULL\<rparr>) \<and>
   LeptParseTrue \<lparr>json = ''true,1''\<rparr> (NewLeptValue expr_ops)
     = Some (LeptParseOK, \<lparr>json = '',1''\<rparr>, (NewLeptValue expr_ops)\<lparr>typ := LeptTRUE\<rparr>) \<and>
   LeptParseFalse \<lparr>json = ''false,1''\<rparr> (NewLeptValue expr_ops)
     = Some (LeptParseOK, \<lparr>json = '',1''\<rparr>, (NewLeptValue expr_ops)\<lparr>typ := LeptFALSE\<rparr>) \<and>
   take 3 ''ul'' \<noteq> ''ull'' \<and>
   LeptParseNull \<lparr>json = ''nul''\<rparr> (NewLeptValue expr_ops)
     = Some (LeptParseInvalidValue, \<lparr>json = ''ul''\<rparr>, (NewLeptValue expr_ops)) \<and>
   take 3 ''ul'' \<noteq> ''rue'' \<and>
   LeptParseTrue \<lparr>json = ''tul''\<rparr> (NewLeptValue expr_ops)
     = Some (LeptParseInvalidValue, \<lparr>json = ''ul''\<rparr>, (NewLeptValue expr_ops)) \<and>
   take 4 ''ul'' \<noteq> ''alse'' \<and>
   LeptParseFalse \<lparr>json = ''ful''\<rparr> (NewLeptValue expr_ops)
     = Some (LeptParseInvalidValue, \<lparr>json = ''ul''\<rparr>, (NewLeptValue expr_ops))"
  using literal_parsers [of "'',1''" "NewLeptValue expr_ops" "''ul''"]
  by simp

section \<open>Whitespace and the entry point\<close>

lemma LeptParseWhitespace_loop_eq:
  "i \<le> length str \<Longrightarrow>
   LeptParseWhitespace_loop str i = Some (i + length (takeWhile is_ws (drop i str)))"
proof (induction str i rule: LeptParseWhitespace_loop.induct)
  case (1 str i)
  show ?case
  proof (cases "i < length str")
    case True
    then have d: "drop i str = str ! i # drop (Suc i) str"
      by (simp add: Cons_nth_drop_Suc)
    from True 1 d show ?thesis
      by (subst LeptParseWhitespace_loop.simps) (simp add: at_less)
  next
    case False
    with 1(2) have "i = length str" by simp
    then show ?thesis
      by (subst LeptParseWhitespace_loop.simps) simp
  qed
qed

lemma LeptParseWhitespace_eq:
  "LeptParseWhitespace c = Some (c\<lparr>json := dropWhile is_ws (json c)\<rparr>)"
proof -
  have "length (takeWhile is_ws (json c)) \<le> length (json c)"
    by (rule length_takeWhile_le)
  then show ?thesis
    by (simp add: LeptParseWhitespace_def LeptParseWhitespace_loop_eq slice_from_le
        dropWhile_eq_drop)
qed

lemma LeptParse_eq:
  "LeptParse ops (Some v) input =
     (case LeptParseValue ops \<lparr>json = dropWhile is_ws input\<rparr> (v\<lparr>typ := LeptNULL\<rparr>) of
        None \<Rightarrow> None
      | Some (ret, c2, v2) \<Rightarrow>
          Some (if ret \<noteq> LeptParseOK then ret
                else if dropWhile is_ws (json c2) \<noteq> [] then LeptParseRootNotSingular
                else LeptParseOK, v2))"
  by (simp add: LeptParse_def NewLeptContext_def LeptParseWhitespace_eq
      split: option.splits prod.splits)

lemma dropWhile_ws_append:
  "list_all is_ws w \<Longrightarrow> dropWhile is_ws (w @ xs) = dropWhile is_ws xs"
  by (simp add: list_all_iff)

lemma LeptParseValue_Nil:
  "LeptParseValue ops \<lparr>json = []\<rparr> v = Some (LeptParseExpectValue, \<lparr>json = []\<rparr>, v)"
  by (simp add: LeptParseValue_def)

lemma LeptParseValue_Cons:
  "LeptParseValue ops \<lparr>json = x # xs\<rparr> v =
     (if x = CHR ''n'' then LeptParseNull \<lparr>json = x # xs\<rparr> v
      else if x = CHR ''t'' then LeptParseTrue \<lparr>json = x # xs\<rparr> v
      else if x = CHR ''f'' then LeptParseFalse \<lparr>json = x # xs\<rparr> v
      else if x = CHR 0x22 then LeptParseString \<lparr>json = x # xs\<rparr> v
      else LeptParseNumber ops \<lparr>json = x # xs\<rparr> v)"
  by (simp add: LeptParseValue_def)

lemma LeptParse_blank:
  assumes "list_all is_ws input"
  shows "LeptParse ops (Some v) input = Some (LeptParseExpectValue, v\<lparr>typ := LeptNULL\<rparr>)"
proof -
  from assms have blank: "dropWhile is_ws input = []"
    by (simp add: list_all_iff)
  show ?thesis
    unfolding LeptParse_eq blank by (simp add: LeptParseValue_Nil)
qed

lemma LeptParse_value:
  assumes "LeptParseValue ops \<lparr>json = dropWhile is_ws input\<rparr> (v\<lparr>typ := LeptNULL\<rparr>) = Some (ret, c2, v2)"
  shows "LeptParse ops (Some v) input =
     Some (if ret \<noteq> LeptParseOK then ret
           else if \<not> list_all is_ws (json c2) then LeptParseRootNotSingular
           else LeptParseOK, v2)"
  using assms by (simp add: LeptParse_eq list_all_iff)

lemma LeptParse_true_padded:
  assumes "list_all is_ws w1" and "list_all is_ws w2"
  shows "LeptParse ops (Some v) (w1 @ ''true'' @ w2) = Some (LeptParseOK, v\<lparr>typ := LeptTRUE\<rparr>)"
proof -
  have "dropWhile is_ws (w1 @ ''true'' @ w2) = ''true'' @ w2"
    using assms(1) by (simp add: dropWhile_ws_append is_ws_def)
  moreover have "LeptParseValue ops \<lparr>json = ''true'' @ w2\<rparr> (v\<lparr>typ := LeptNULL\<rparr>)
      = Some (LeptParseOK, \<lparr>json = w2\<rparr>, v\<lparr>typ := LeptTRUE\<rparr>)"
    using LeptParseTrue_match [of w2 "v\<lparr>typ := LeptNULL\<rparr>"]
    by (simp add: LeptParseValue_Cons)
  ultimately show ?thesis
    using assms(2) LeptParse_value [of ops "w1 @ ''true'' @ w2" v LeptParseOK "\<lparr>json = w2\<rparr>"]
    by simp
qed

lemma LeptParse_true_trailing:
  assumes "list_all is_ws w1" and "list_all is_ws w2" and "\<not> is_ws x"
  shows "LeptParse ops (Some v) (w1 @ ''true'' @ w2 @ x # rest)
           = Some (LeptParseRootNotSingular, v\<lparr>typ := LeptTRUE\<rparr>)"
proof -
  have "dropWhile is_ws (w1 @ ''true'' @ w2 @ x # rest) = ''true'' @ w2 @ x # rest"
    using assms(1) by (simp add: dropWhile_ws_append is_ws_def)
  moreover have "LeptParseValue ops \<lparr>json = ''true'' @ w2 @ x # rest\<rparr> (v\<lparr>typ := LeptNULL\<rparr>)
      = Some (LeptParseOK, \<lparr>json = w2 @ x # rest\<rparr>, v\<lparr>typ := LeptTRUE\<rparr>)"
    using LeptParseTrue_match [of "w2 @ x # rest" "v\<lparr>typ := LeptNULL\<rparr>"]
    by (simp add: LeptParseValue_Cons)
  moreover have "\<not> list_all is_ws (w2 @ x # rest)"
    using assms(3) by simp
  ultimately show ?thesis
    using LeptParse_value [of ops "w1 @ ''true'' @ w2 @ x # rest" v LeptParseOK
        "\<lparr>json = w2 @ x # rest\<rparr>"]
    by simp
qed

text \<open>
  The entry parse skips leading whitespace and parses one value with
  \<open>LeptParseValue\<close>. An input of whitespace only (the empty input included) returns
  \<open>LeptParseExpectValue\<close>. When the value parser returns an event other than
  \<open>LeptParseOK\<close>, that event is returned; when it returns \<open>LeptParseOK\<close>, the entry parse
  skips whitespace again and returns \<open>LeptParseRootNotSingular\<close> if input remains and
  \<open>LeptParseOK\<close> otherwise. In particular \<open>true\<close> between any whitespace parses to the
  true value, as \<open>"  true  "\<close> does, and \<open>true\<close> followed by whitespace and a
  non-whitespace byte is \<open>LeptParseRootNotSingular\<close>, as \<open>"true false"\<close> is.
\<close>

lemma LeptParse_sequence:
  "(list_all is_ws input \<longrightarrow>
      LeptParse ops (Some v) input = Some (LeptParseExpectValue, v\<lparr>typ := LeptNULL\<rparr>)) \<and>
   (LeptParseValue ops \<lparr>json = dropWhile is_ws input\<rparr> (v\<lparr>typ := LeptNULL\<rparr>) = Some (ret, c2, v2) \<longrightarrow>
      LeptParse ops (Some v) input =
        Some (if ret \<noteq> LeptParseOK then ret
              else if \<not> list_all is_ws (json c2) then LeptParseRootNotSingular
              else LeptParseOK, v2)) \<and>
   (list_all is_ws w1 \<and> list_all is_ws w2 \<longrightarrow>
      LeptParse ops (Some v) (w1 @ ''true'' @ w2) = Some (LeptParseOK, v\<lparr>typ := LeptTRUE\<rparr>)) \<and>
   (list_all is_ws w1 \<and> list_all is_ws w2 \<and> \<not> is_ws x \<longrightarrow>
      LeptParse ops (Some v) (w1 @ ''true'' @ w2 @ x # rest)
        = Some (LeptParseRootNotSingular, v\<lparr>typ := LeptTRUE\<rparr>)) \<and>
   LeptParse ops (Some v) ''  true  '' = Some (LeptParseOK, v\<lparr>typ := LeptTRUE\<rparr>) \<and>
   LeptParse ops (Some v) ''true false'' = Some (LeptParseRootNotSingular, v\<lparr>typ := LeptTRUE\<rparr>)"
proof -
  have a: "LeptParse ops (Some v) ''  true  '' = Some (LeptParseOK, v\<lparr>typ := LeptTRUE\<rparr>)"
    using LeptParse_true_padded [of "''  ''" "''  ''" ops v] by (simp add: is_ws_def)
  have b: "LeptParse ops (Some v) ''true false'' = Some (LeptParseRootNotSingular, v\<lparr>typ := LeptTRUE\<rparr>)"
    using LeptParse_true_trailing [of "[]" "'' ''" "CHR ''f''" ops v "''alse''"]
    by (simp add: is_ws_def)
  show ?thesis
    using a b LeptParse_blank LeptParse_value LeptParse_true_padded LeptParse_true_trailing
    by blast
qed

section \<open>Digit runs and \<open>parseInteger\<close>\<close>

lemma isDigit_signs [simp]:
  "\<not> isDigit (CHR ''-'')" "\<not> isDigit (CHR ''+'')" "\<not> isDigit (CHR ''.'')"
  "\<not> isDigit (CHR ''e'')" "\<not> isDigit (CHR ''E'')" "isDigit (CHR ''0'')"
  by (simp_all add: isDigit_def)

lemma no_digit_ahead_simps [simp]:
  "no_digit_ahead []" "no_digit_ahead (x # xs) = (\<not> isDigit x)"
  by (simp_all add: no_digit_ahead_def)

lemma parseInteger_loop_eq:
  "i \<le> length input \<Longrightarrow>
   parseInteger_loop input i = Some (i + length (takeWhile isDigit (drop i input)))"
proof (induction input i rule: parseInteger_loop.induct)
  case (1 input i)
  show ?case
  proof (cases "i < length input")
    case True
    then have d: "drop i input = input ! i # drop (Suc i) input"
      by (simp add: Cons_nth_drop_Suc)
    from True 1 d show ?thesis
      by (subst parseInteger_loop.simps) (simp add: at_less)
  next
    case False
    with 1(2) have "i = length input" by simp
    then show ?thesis
      by (subst parseInteger_loop.simps) simp
  qed
qed

lemma Atoi_digits:
  assumes "list_all isDigit ds"
  shows "Atoi ds =
     (if ds = [] then (0, Some ErrSyntax)
      else if decimal_value ds > 2 ^ 63 - 1 then (2 ^ 63 - 1, Some ErrRange)
      else (decimal_value ds, None))"
proof (cases ds)
  case Nil
  then show ?thesis by (simp add: Atoi_def)
next
  case (Cons d ds')
  with assms have "isDigit d" by simp
  then have "d \<noteq> CHR ''-''" "d \<noteq> CHR ''+''" by auto
  with Cons assms show ?thesis by (simp add: Atoi_def)
qed

lemma parseInteger_eq:
  "parseInteger input =
     Some (if takeWhile isDigit input = [] then ([], 0, Some ErrSyntax)
           else if decimal_value (takeWhile isDigit input) > 2 ^ 63 - 1 then ([], 0, Some ErrRange)
           else (dropWhile isDigit input, decimal_value (takeWhile isDigit input), None))"
proof -
  have len: "length (takeWhile isDigit input) \<le> length input"
    by (rule length_takeWhile_le)
  have run: "list_all isDigit (takeWhile isDigit input)"
    by (auto simp: list_all_iff dest: set_takeWhileD)
  have tk: "take (length (takeWhile isDigit input)) input = takeWhile isDigit input"
    by (simp add: takeWhile_eq_take [symmetric])
  show ?thesis
    using len Atoi_digits [OF run]
    by (simp add: parseInteger_def parseInteger_loop_eq slice_to_le slice_from_le tk
        dropWhile_eq_drop)
qed

lemma takeWhile_run:
  assumes "list_all isDigit ds" and "no_digit_ahead rest"
  shows "takeWhile isDigit (ds @ rest) = ds" and "dropWhile isDigit (ds @ rest) = rest"
proof -
  from assms(2) have "takeWhile isDigit rest = []" and "dropWhile isDigit rest = rest"
    by (cases rest; simp)+
  with assms(1) show "takeWhile isDigit (ds @ rest) = ds" "dropWhile isDigit (ds @ rest) = rest"
    by (simp_all add: list_all_iff)
qed

lemma parseInteger_run:
  assumes "list_all isDigit ds" and "no_digit_ahead rest"
  shows "parseInteger (ds @ rest) =
     Some (if ds = [] then ([], 0, Some ErrSyntax)
           else if decimal_value ds > 2 ^ 63 - 1 then ([], 0, Some ErrRange)
           else (rest, decimal_value ds, None))"
  by (simp add: parseInteger_eq takeWhile_run [OF assms])

lemma parseInteger_total: "\<exists>rest i err. parseInteger input = Some (rest, i, err)"
  by (simp add: parseInteger_eq)

lemma parseInteger_no_digits:
  "no_digit_ahead rest \<Longrightarrow> parseInteger rest = Some ([], 0, Some ErrSyntax)"
  using parseInteger_run [of "[]" rest] by simp

section \<open>The number parser\<close>

lemma strtod_Nil: "strtod ops [] = None"
  by (simp add: strtod_def)

lemma strtod_minus: "strtod ops (CHR ''-'' # t) = strtod_int ops True t"
  by (simp add: strtod_def)

lemma strtod_unsigned: "x \<noteq> CHR ''-'' \<Longrightarrow> strtod ops (x # t) = strtod_int ops False (x # t)"
  by (simp add: strtod_def)

lemma strtod_int_Nil: "strtod_int ops neg [] = Some (f64_of_int ops 0, [], Some IllegalInput)"
  by (simp add: strtod_int_def)

lemma strtod_int_nondigit:
  assumes "\<not> isDigit x"
  shows "strtod_int ops neg (x # t) = Some (f64_of_int ops 0, [], Some IllegalInput)"
proof -
  from assms have "x \<noteq> CHR ''0''" by auto
  with assms show ?thesis by (simp add: strtod_int_def)
qed

lemma strtod_int_zero: "strtod_int ops neg ''0'' = Some (f64_of_int ops 0, [], None)"
  by (simp add: strtod_int_def)

lemma strtod_int_leading_zero:
  assumes "x \<noteq> CHR ''.''" and "x \<noteq> CHR ''e''" and "x \<noteq> CHR ''E''"
  shows "strtod_int ops neg (CHR ''0'' # x # t) = Some (f64_of_int ops 0, [], Some IllegalInput)"
  using assms by (simp add: strtod_int_def)

lemma strtod_int_digit:
  assumes "isDigit d" and "d = CHR ''0'' \<Longrightarrow> t \<noteq> [] \<and> hd t \<in> {CHR ''.'', CHR ''e'', CHR ''E''}"
  shows "strtod_int ops neg (d # t) =
     (case parseInteger (d # t) of
        None \<Rightarrow> None
      | Some (input1, integer, err) \<Rightarrow>
          if err \<noteq> None then Some (f64_of_int ops 0, [], err)
          else strtod_rest ops neg input1 integer)"
proof (cases "d = CHR ''0''")
  case True
  with assms(2) obtain x t' where t: "t = x # t'" and x: "x \<in> {CHR ''.'', CHR ''e'', CHR ''E''}"
    by (cases t) auto
  from True t x show ?thesis
    by (auto simp: strtod_int_def split: option.splits prod.splits)
next
  case False
  with assms(1) show ?thesis
    by (auto simp: strtod_int_def split: option.splits prod.splits)
qed

lemma strtod_rest_Nil: "strtod_rest ops neg [] i = strtod_return ops neg (f64_of_int ops i)"
  by (simp add: strtod_rest_def)

lemma parseFrac_dot: "parseFrac (CHR ''.'' # t) = parseInteger t"
  by (simp add: parseFrac_def)

lemma parseExp_bare:
  assumes "ex = CHR ''e'' \<or> ex = CHR ''E''"
  shows "parseExp [ex] = Some ([], 0, Some NotExp)"
  using assms by (auto simp: parseExp_def)

lemma parseExp_signed:
  assumes "ex = CHR ''e'' \<or> ex = CHR ''E''" and "sg = CHR ''-'' \<or> sg = CHR ''+''"
  shows "parseExp (ex # sg # t) =
     (case parseInteger t of
        None \<Rightarrow> None
      | Some (input2, exp, err) \<Rightarrow>
          if err \<noteq> None then Some ([], 0, err)
          else Some (input2, if sg = CHR ''-'' then - exp else exp, None))"
  using assms by (auto simp: parseExp_def split: option.splits prod.splits)

lemma parseExp_unsigned:
  assumes "ex = CHR ''e'' \<or> ex = CHR ''E''" and "x \<noteq> CHR ''-''" and "x \<noteq> CHR ''+''"
  shows "parseExp (ex # x # t) =
     (case parseInteger (x # t) of
        None \<Rightarrow> None
      | Some (input2, exp, err) \<Rightarrow>
          if err \<noteq> None then Some ([], 0, err)
          else Some (input2, exp, None))"
  using assms by (auto simp: parseExp_def split: option.splits prod.splits)

lemma parseExp_other:
  assumes "x \<noteq> CHR ''e''" and "x \<noteq> CHR ''E''"
  shows "parseExp (x # t) = Some ([], 0, Some NotExp)"
  using assms by (simp add: parseExp_def)

lemma parseExp_total:
  "\<exists>rest i err. parseExp (x # t) = Some (rest, i, err)"
proof (cases "x = CHR ''e'' \<or> x = CHR ''E''")
  case False
  then show ?thesis by (simp add: parseExp_other)
next
  case ex: True
  show ?thesis
  proof (cases t)
    case Nil
    with ex show ?thesis by (simp add: parseExp_bare)
  next
    case (Cons y t')
    obtain r1 i1 e1 where p1: "parseInteger t' = Some (r1, i1, e1)"
      using parseInteger_total by blast
    obtain r2 i2 e2 where p2: "parseInteger (y # t') = Some (r2, i2, e2)"
      using parseInteger_total by blast
    show ?thesis
    proof (cases "y = CHR ''-'' \<or> y = CHR ''+''")
      case True
      with ex Cons p1 show ?thesis by (simp add: parseExp_signed)
    next
      case False
      with ex Cons p2 show ?thesis by (simp add: parseExp_unsigned)
    qed
  qed
qed

lemma strtod_rest_dot:
  "strtod_rest ops neg (CHR ''.'' # t) i =
     (case parseInteger t of
        None \<Rightarrow> None
      | Some (input1, decimal, err) \<Rightarrow>
          if err \<noteq> None then Some (f64_of_int ops i, [], err)
          else
            let frac = strtod_frac_loop (int (length t)) (int (length input1)) 1;
                ret1 = f64_add ops (f64_of_int ops i)
                         (f64_div ops (f64_of_int ops decimal) (f64_of_int ops (sint frac)))
            in case input1 of
                 [] \<Rightarrow> strtod_return ops neg ret1
               | x # xs \<Rightarrow>
                   if x \<noteq> CHR ''e'' \<and> x \<noteq> CHR ''E'' then Some (ret1, [], Some IllegalInput)
                   else
                     (case parseExp input1 of
                        None \<Rightarrow> None
                      | Some (input2, exp, err2) \<Rightarrow>
                          if err2 \<noteq> None \<or> input2 \<noteq> [] then Some (ret1, [], Some IllegalInput)
                          else strtod_return ops neg (f64_mul ops ret1 (f64_Pow10 ops exp))))"
  by (auto simp: strtod_rest_def parseFrac_dot Let_def
      split: option.splits prod.splits list.splits)

lemma strtod_rest_exp:
  assumes "ex = CHR ''e'' \<or> ex = CHR ''E''"
  shows "strtod_rest ops neg (ex # t) i =
     (case parseExp (ex # t) of
        None \<Rightarrow> None
      | Some (input1, exp, err) \<Rightarrow>
          if err \<noteq> None then Some (f64_of_int ops i, [], err)
          else if input1 \<noteq> [] then Some (f64_of_int ops i, [], Some IllegalInput)
          else strtod_return ops neg (f64_mul ops (f64_of_int ops i) (f64_Pow10 ops exp)))"
  using assms
  by (auto simp: strtod_rest_def Let_def split: option.splits prod.splits)

lemma strtod_rest_other:
  assumes "x \<noteq> CHR ''.''" and "x \<noteq> CHR ''e''" and "x \<noteq> CHR ''E''"
  shows "strtod_rest ops neg (x # t) i = Some (f64_of_int ops i, [], Some IllegalInput)"
  using assms by (simp add: strtod_rest_def)

lemma strtod_rest_total: "\<exists>r err. strtod_rest ops neg input i = Some (r, [], err)"
proof (cases input)
  case Nil
  then show ?thesis by (simp add: strtod_rest_Nil strtod_return_def)
next
  case (Cons x t)
  consider (dot) "x = CHR ''.''" | (ex) "x = CHR ''e'' \<or> x = CHR ''E''"
    | (other) "x \<noteq> CHR ''.''" "x \<noteq> CHR ''e''" "x \<noteq> CHR ''E''"
    by blast
  then show ?thesis
  proof cases
    case dot
    obtain input1 d err where p: "parseInteger t = Some (input1, d, err)"
      using parseInteger_total by blast
    show ?thesis
    proof (cases input1)
      case Nil
      with Cons dot p show ?thesis
        by (simp add: strtod_rest_dot strtod_return_def Let_def)
    next
      case c1: (Cons y ys)
      obtain input2 e err2 where q: "parseExp (y # ys) = Some (input2, e, err2)"
        using parseExp_total by blast
      with Cons dot p c1 show ?thesis
        by (simp add: strtod_rest_dot strtod_return_def Let_def)
    qed
  next
    case ex
    obtain input1 e err where q: "parseExp (x # t) = Some (input1, e, err)"
      using parseExp_total by blast
    with Cons ex show ?thesis
      by (simp add: strtod_rest_exp strtod_return_def)
  next
    case other
    with Cons show ?thesis by (simp add: strtod_rest_other)
  qed
qed

lemma strtod_int_total: "\<exists>r err. strtod_int ops neg input = Some (r, [], err)"
proof (cases input)
  case Nil
  then show ?thesis by (simp add: strtod_int_Nil)
next
  case (Cons d t)
  show ?thesis
  proof (cases "isDigit d")
    case False
    with Cons show ?thesis by (simp add: strtod_int_nondigit)
  next
    case dig: True
    obtain input1 i err where p: "parseInteger (d # t) = Some (input1, i, err)"
      using parseInteger_total by blast
    obtain r e where q: "strtod_rest ops neg input1 i = Some (r, [], e)"
      using strtod_rest_total [of ops neg input1 i] by blast
    have run: "strtod_int ops neg (d # t) =
        (if err \<noteq> None then Some (f64_of_int ops 0, [], err) else strtod_rest ops neg input1 i)"
      if "d = CHR ''0'' \<Longrightarrow> t \<noteq> [] \<and> hd t \<in> {CHR ''.'', CHR ''e'', CHR ''E''}"
      using strtod_int_digit [OF dig that, of ops neg] p by simp
    have go: "d = CHR ''0'' \<Longrightarrow> t \<noteq> [] \<and> hd t \<in> {CHR ''.'', CHR ''e'', CHR ''E''} \<Longrightarrow> ?thesis"
       "d \<noteq> CHR ''0'' \<Longrightarrow> ?thesis"
      using Cons q run by simp_all
    show ?thesis
    proof (cases "d = CHR ''0''")
      case False
      then show ?thesis by (rule go(2))
    next
      case zero: True
      show ?thesis
      proof (cases t)
        case Nil
        with Cons zero show ?thesis by (simp add: strtod_int_zero)
      next
        case t: (Cons x t')
        show ?thesis
        proof (cases "x \<in> {CHR ''.'', CHR ''e'', CHR ''E''}")
          case True
          with t zero show ?thesis by (intro go(1)) simp_all
        next
          case False
          with Cons zero t show ?thesis by (simp add: strtod_int_leading_zero)
        qed
      qed
    qed
  qed
qed

lemma strtod_total:
  assumes "input \<noteq> []"
  shows "\<exists>r err. strtod ops input = Some (r, [], err)"
proof -
  from assms obtain x t where input: "input = x # t" by (cases input) auto
  show ?thesis
  proof (cases "x = CHR ''-''")
    case True
    with input show ?thesis by (simp add: strtod_minus strtod_int_total)
  next
    case False
    with input show ?thesis by (simp add: strtod_unsigned strtod_int_total)
  qed
qed

lemma strtod_end_empty:
  assumes "strtod ops input = Some (r, e, err)"
  shows "e = []"
proof -
  from assms have "input \<noteq> []" by (auto simp: strtod_Nil)
  with strtod_total [of input ops] assms show ?thesis by fastforce
qed

section \<open>No panic on any input\<close>

lemma LeptContext_eta: "\<lparr>json = json c\<rparr> = (c :: LeptContext)"
  by simp

lemma LeptParseString_loop_total: "\<exists>r. LeptParseString_loop c v stack i = Some r"
proof (induction c v stack i rule: LeptParseString_loop.induct)
  case (1 c v stack i)
  show ?case
  proof (cases "i < length (json c)")
    case False
    then show ?thesis by (subst LeptParseString_loop.simps) simp
  next
    case True
    with 1 show ?thesis
      by (subst LeptParseString_loop.simps)
        (auto simp: at_less slice_from_le split: option.splits)
  qed
qed

lemma LeptParseNull_total: "\<exists>r. LeptParseNull \<lparr>json = CHR ''n'' # t\<rparr> v = Some r"
proof (cases "take 3 t = ''ull''")
  case True
  then have "t = ''ull'' @ drop 3 t"
    by (metis append_take_drop_id)
  then obtain rest where "t = ''ull'' @ rest" ..
  then show ?thesis
    using LeptParseNull_match [of rest v] by simp
next
  case False
  then show ?thesis by (simp add: LeptParseNull_mismatch)
qed

lemma LeptParseTrue_total: "\<exists>r. LeptParseTrue \<lparr>json = CHR ''t'' # t\<rparr> v = Some r"
proof (cases "take 3 t = ''rue''")
  case True
  then have "t = ''rue'' @ drop 3 t"
    by (metis append_take_drop_id)
  then obtain rest where "t = ''rue'' @ rest" ..
  then show ?thesis
    using LeptParseTrue_match [of rest v] by simp
next
  case False
  then show ?thesis by (simp add: LeptParseTrue_mismatch)
qed

lemma LeptParseFalse_total: "\<exists>r. LeptParseFalse \<lparr>json = CHR ''f'' # t\<rparr> v = Some r"
proof (cases "take 4 t = ''alse''")
  case True
  then have "t = ''alse'' @ drop 4 t"
    by (metis append_take_drop_id)
  then obtain rest where "t = ''alse'' @ rest" ..
  then show ?thesis
    using LeptParseFalse_match [of rest v] by simp
next
  case False
  then show ?thesis by (simp add: LeptParseFalse_mismatch)
qed

lemma LeptParseString_total: "\<exists>r. LeptParseString \<lparr>json = CHR 0x22 # t\<rparr> v = Some r"
  using LeptParseString_loop_total [of "\<lparr>json = t\<rparr>" v "[]" 0]
  by (simp add: LeptParseString_def)

lemma LeptParseNumber_eq:
  "LeptParseNumber ops c v =
     (case strtod ops (json c) of
        None \<Rightarrow> None
      | Some (ret, tail, err) \<Rightarrow>
          if err \<noteq> None then Some (LeptParseInvalidValue, c, v\<lparr>n := ret\<rparr>)
          else Some (LeptParseOK, c\<lparr>json := tail\<rparr>, v\<lparr>n := ret, typ := LeptNUMBER\<rparr>))"
  by (simp add: LeptParseNumber_def split: option.splits prod.splits)

lemma LeptParseNumber_total:
  assumes "json c \<noteq> []"
  shows "\<exists>r. LeptParseNumber ops c v = Some r"
proof -
  from strtod_total [OF assms, of ops] obtain r err where "strtod ops (json c) = Some (r, [], err)"
    by blast
  then show ?thesis by (simp add: LeptParseNumber_eq)
qed

lemma LeptParseValue_total: "\<exists>r. LeptParseValue ops c v = Some r"
proof (cases "json c")
  case Nil
  then show ?thesis by (simp add: LeptParseValue_def)
next
  case (Cons x t)
  then have c: "c = \<lparr>json = x # t\<rparr>"
    by (metis LeptContext_eta)
  have "\<exists>r. LeptParseNumber ops \<lparr>json = x # t\<rparr> v = Some r"
    by (rule LeptParseNumber_total) simp
  then show ?thesis
    unfolding c LeptParseValue_Cons
    using LeptParseNull_total [of t v] LeptParseTrue_total [of t v] LeptParseFalse_total [of t v]
      LeptParseString_total [of t v]
    by simp
qed

text \<open>
  Claim C10. For every input and every non-nil output value the entry parse returns
  normally: it yields an event and a value and does not panic. The same holds for the
  value parser on every cursor, so each \<open>expect\<close> and each index or slice expression
  of the literal, string and number parsers is evaluated in range whenever it is
  reached from there. All loops of the model are total functions, their termination
  being proved from a measure that decreases.
\<close>

theorem LeptParse_never_panics:
  "(\<exists>ret v'. LeptParse ops (Some v) input = Some (ret, v')) \<and>
   (\<exists>ret c' v'. LeptParseValue ops c v = Some (ret, c', v'))"
proof -
  obtain ret c2 v2 where
    "LeptParseValue ops \<lparr>json = dropWhile is_ws input\<rparr> (v\<lparr>typ := LeptNULL\<rparr>) = Some (ret, c2, v2)"
    using LeptParseValue_total [of ops "\<lparr>json = dropWhile is_ws input\<rparr>" "v\<lparr>typ := LeptNULL\<rparr>"]
    by (metis prod_cases3)
  then have "\<exists>ret v'. LeptParse ops (Some v) input = Some (ret, v')"
    by (simp add: LeptParse_eq)
  moreover have "\<exists>ret c' v'. LeptParseValue ops c v = Some (ret, c', v')"
    using LeptParseValue_total [of ops c v] by (metis prod_cases3)
  ultimately show ?thesis by blast
qed


text \<open>
  The guards matter: called outside the dispatcher the same functions do panic, on a
  nil output value, on an empty cursor, or on a first byte other than the expected one.
\<close>

lemma panics_outside_dispatch:
  "LeptParse ops None input = None"
  "strtod ops [] = None"
  "LeptParseNull \<lparr>json = []\<rparr> v = None"
  "LeptParseTrue \<lparr>json = ''null''\<rparr> v = None"
  "LeptParseString \<lparr>json = ''abc''\<rparr> v = None"
  by (simp_all add: LeptParse_def strtod_Nil LeptParseNull_def LeptParseTrue_def
      LeptParseString_def)

section \<open>Malformed numbers\<close>

lemma isDigit_dispatch:
  assumes "isDigit x \<or> x = CHR ''-''"
  shows "\<not> is_ws x" "x \<noteq> CHR ''n''" "x \<noteq> CHR ''t''" "x \<noteq> CHR ''f''" "x \<noteq> CHR 0x22"
  using assms by (auto simp: isDigit_def is_ws_def)

lemma LeptParse_number:
  assumes "\<not> is_ws x" "x \<noteq> CHR ''n''" "x \<noteq> CHR ''t''" "x \<noteq> CHR ''f''" "x \<noteq> CHR 0x22"
    and "strtod ops (x # t) = Some (r, e, err)"
  shows "LeptParse ops (Some v) (x # t) =
     (if err \<noteq> None then Some (LeptParseInvalidValue, v\<lparr>typ := LeptNULL, n := r\<rparr>)
      else Some (LeptParseOK, v\<lparr>n := r, typ := LeptNUMBER\<rparr>))"
proof -
  from assms(6) have "e = []" by (rule strtod_end_empty)
  with assms show ?thesis
    by (simp add: LeptParse_eq LeptParseValue_Cons LeptParseNumber_eq)
qed

lemma LeptParse_rejected:
  assumes "isDigit x \<or> x = CHR ''-''" and "strtod ops (x # t) = Some (r, e, Some err)"
  shows "map_option fst (LeptParse ops (Some v) (x # t)) = Some LeptParseInvalidValue"
  using LeptParse_number [OF isDigit_dispatch [OF assms(1)] assms(2)] by simp

lemma strtod_int_run_rejected:
  assumes ds: "digits ds" and rest: "no_digit_ahead rest" "rest \<noteq> []"
    and rej: "\<And>i. \<exists>r err. strtod_rest ops neg rest i = Some (r, [], Some err)"
  shows "\<exists>r err. strtod_int ops neg (ds @ rest) = Some (r, [], Some err)"
proof -
  from ds obtain d ds' where d: "ds = d # ds'" "isDigit d" "list_all isDigit ds"
    by (cases ds) (auto simp: digits_def)
  from rest obtain y rest' where y: "rest = y # rest'" "\<not> isDigit y"
    by (cases rest) auto
  have pi: "parseInteger (d # ds' @ rest) =
      Some (if decimal_value ds > 2 ^ 63 - 1 then ([], 0, Some ErrRange)
            else (rest, decimal_value ds, None))"
    using parseInteger_run [OF d(3) rest(1)] d(1) by simp
  show ?thesis
  proof (cases "d = CHR ''0'' \<and> hd (ds' @ rest) \<notin> {CHR ''.'', CHR ''e'', CHR ''E''}")
    case True
    then obtain x t where "ds' @ rest = x # t" "x \<noteq> CHR ''.''" "x \<noteq> CHR ''e''" "x \<noteq> CHR ''E''"
      using y(1) by (cases "ds' @ rest") auto
    with True d(1) show ?thesis
      using strtod_int_leading_zero [of x ops neg t] by simp
  next
    case False
    with y(1) have "d = CHR ''0'' \<Longrightarrow> ds' @ rest \<noteq> [] \<and> hd (ds' @ rest) \<in> {CHR ''.'', CHR ''e'', CHR ''E''}"
      by auto
    from strtod_int_digit [OF d(2) this, of ops neg]
    have "strtod_int ops neg (d # ds' @ rest) =
        (if decimal_value ds > 2 ^ 63 - 1 then Some (f64_of_int ops 0, [], Some ErrRange)
         else strtod_rest ops neg rest (decimal_value ds))"
      by (simp add: pi)
    with rej [of "decimal_value ds"] d(1) show ?thesis
      by auto
  qed
qed

lemma strtod_run_rejected:
  assumes "digits ds" and "no_digit_ahead rest" "rest \<noteq> []"
    and "\<And>neg i. \<exists>r err. strtod_rest ops neg rest i = Some (r, [], Some err)"
    and "mi = [] \<or> mi = ''-''"
  shows "map_option fst (LeptParse ops (Some v) (mi @ ds @ rest)) = Some LeptParseInvalidValue"
proof -
  from assms(1) obtain d ds' where d: "ds = d # ds'" "isDigit d"
    by (cases ds) (auto simp: digits_def)
  then have nm: "d \<noteq> CHR ''-''" by auto
  from assms(5) show ?thesis
  proof
    assume "mi = []"
    moreover obtain r err where "strtod ops (d # ds' @ rest) = Some (r, [], Some err)"
      using strtod_int_run_rejected [OF assms(1-3), of ops False] assms(4) d(1) nm
      by (auto simp: strtod_unsigned)
    ultimately show ?thesis
      using LeptParse_rejected [of d ops "ds' @ rest" r "[]" err v] d by simp
  next
    assume "mi = ''-''"
    moreover obtain r err where "strtod ops (CHR ''-'' # ds @ rest) = Some (r, [], Some err)"
      using strtod_int_run_rejected [OF assms(1-3), of ops True] assms(4)
      by (auto simp: strtod_minus)
    ultimately show ?thesis
      using LeptParse_rejected [of "CHR ''-''" ops "ds @ rest" r "[]" err v] by simp
  qed
qed

lemma strtod_rest_no_fraction:
  assumes "no_digit_ahead rest"
  shows "strtod_rest ops neg (CHR ''.'' # rest) i = Some (f64_of_int ops i, [], Some ErrSyntax)"
  by (simp add: strtod_rest_dot parseInteger_no_digits [OF assms])

lemma parseExp_malformed:
  assumes "ex = CHR ''e'' \<or> ex = CHR ''E''" and "malformed_exp t"
  shows "\<exists>err. parseExp (ex # t) = Some ([], 0, Some err)"
proof (cases t)
  case Nil
  with assms(1) show ?thesis by (simp add: parseExp_bare)
next
  case (Cons x t')
  show ?thesis
  proof (cases "x = CHR ''-'' \<or> x = CHR ''+''")
    case True
    with assms(2) Cons have "no_digit_ahead t'" by (simp add: malformed_exp_def)
    then have "parseInteger t' = Some ([], 0, Some ErrSyntax)"
      by (rule parseInteger_no_digits)
    with True Cons assms(1) show ?thesis by (simp add: parseExp_signed)
  next
    case False
    with assms(2) Cons have "no_digit_ahead (x # t')" by (simp add: malformed_exp_def)
    then have "parseInteger (x # t') = Some ([], 0, Some ErrSyntax)"
      by (rule parseInteger_no_digits)
    with False Cons assms(1) show ?thesis by (simp add: parseExp_unsigned)
  qed
qed

lemma strtod_rest_malformed_exp:
  assumes "ex = CHR ''e'' \<or> ex = CHR ''E''" and "malformed_exp t"
  shows "\<exists>r err. strtod_rest ops neg (ex # t) i = Some (r, [], Some err)"
proof -
  from parseExp_malformed [OF assms] obtain err where "parseExp (ex # t) = Some ([], 0, Some err)" ..
  with assms(1) show ?thesis by (simp add: strtod_rest_exp)
qed

lemma strtod_rest_fraction_malformed_exp:
  assumes "digits fs" and "ex = CHR ''e'' \<or> ex = CHR ''E''" and "malformed_exp t"
  shows "\<exists>r err. strtod_rest ops neg (CHR ''.'' # fs @ ex # t) i = Some (r, [], Some err)"
proof -
  from assms(1) have fs: "list_all isDigit fs" "fs \<noteq> []" by (simp_all add: digits_def)
  from assms(2) have "no_digit_ahead (ex # t)" by auto
  from parseInteger_run [OF fs(1) this] fs(2)
  have pi: "parseInteger (fs @ ex # t) =
      Some (if decimal_value fs > 2 ^ 63 - 1 then ([], 0, Some ErrRange)
            else (ex # t, decimal_value fs, None))"
    by simp
  from parseExp_malformed [OF assms(2,3)] obtain err where "parseExp (ex # t) = Some ([], 0, Some err)" ..
  with assms(2) show ?thesis
    by (auto simp: strtod_rest_dot pi Let_def)
qed

lemma leading_zero_rejected:
  assumes "isDigit d" and "mi = [] \<or> mi = ''-''"
  shows "map_option fst (LeptParse ops (Some v) (mi @ CHR ''0'' # d # rest)) = Some LeptParseInvalidValue"
proof -
  from assms(1) have d: "d \<noteq> CHR ''.''" "d \<noteq> CHR ''e''" "d \<noteq> CHR ''E''" by auto
  have z: "strtod_int ops neg (CHR ''0'' # d # rest) = Some (f64_of_int ops 0, [], Some IllegalInput)" for neg
    using d by (rule strtod_int_leading_zero)
  from assms(2) show ?thesis
  proof
    assume "mi = []"
    then show ?thesis
      using LeptParse_rejected [of "CHR ''0''" ops "d # rest" "f64_of_int ops 0" "[]" IllegalInput v]
      by (simp add: strtod_unsigned z)
  next
    assume "mi = ''-''"
    then show ?thesis
      using LeptParse_rejected [of "CHR ''-''" ops "CHR ''0'' # d # rest" "f64_of_int ops 0" "[]" IllegalInput v]
      by (simp add: strtod_minus z)
  qed
qed

lemma minus_without_digit_rejected:
  assumes "no_digit_ahead rest"
  shows "map_option fst (LeptParse ops (Some v) (CHR ''-'' # rest)) = Some LeptParseInvalidValue"
proof -
  have "strtod_int ops True rest = Some (f64_of_int ops 0, [], Some IllegalInput)"
    using assms by (cases rest) (simp_all add: strtod_int_Nil strtod_int_nondigit)
  then show ?thesis
    using LeptParse_rejected [of "CHR ''-''" ops rest "f64_of_int ops 0" "[]" IllegalInput v]
    by (simp add: strtod_minus)
qed

lemma empty_fraction_rejected:
  assumes "digits ds" and "no_digit_ahead rest" and "mi = [] \<or> mi = ''-''"
  shows "map_option fst (LeptParse ops (Some v) (mi @ ds @ CHR ''.'' # rest)) = Some LeptParseInvalidValue"
proof (rule strtod_run_rejected [OF assms(1) _ _ _ assms(3)])
  show "no_digit_ahead (CHR ''.'' # rest)" by simp
  show "CHR ''.'' # rest \<noteq> []" by simp
  show "\<exists>r err. strtod_rest ops neg (CHR ''.'' # rest) i = Some (r, [], Some err)" for neg i
    by (simp add: strtod_rest_no_fraction [OF assms(2)])
qed

lemma malformed_exponent_rejected:
  assumes "digits ds" and "ex = CHR ''e'' \<or> ex = CHR ''E''" and "malformed_exp t"
    and "mi = [] \<or> mi = ''-''"
  shows "map_option fst (LeptParse ops (Some v) (mi @ ds @ ex # t)) = Some LeptParseInvalidValue"
proof (rule strtod_run_rejected [OF assms(1) _ _ _ assms(4)])
  show "no_digit_ahead (ex # t)" using assms(2) by auto
  show "ex # t \<noteq> []" by simp
  show "\<exists>r err. strtod_rest ops neg (ex # t) i = Some (r, [], Some err)" for neg i
    by (rule strtod_rest_malformed_exp [OF assms(2,3)])
qed

lemma fraction_malformed_exponent_rejected:
  assumes "digits ds" and "digits fs" and "ex = CHR ''e'' \<or> ex = CHR ''E''" and "malformed_exp t"
    and "mi = [] \<or> mi = ''-''"
  shows "map_option fst (LeptParse ops (Some v) (mi @ ds @ CHR ''.'' # fs @ ex # t)) = Some LeptParseInvalidValue"
proof (rule strtod_run_rejected [OF assms(1) _ _ _ assms(5)])
  show "no_digit_ahead (CHR ''.'' # fs @ ex # t)" by simp
  show "CHR ''.'' # fs @ ex # t \<noteq> []" by simp
  show "\<exists>r err. strtod_rest ops neg (CHR ''.'' # fs @ ex # t) i = Some (r, [], Some err)" for neg i
    by (rule strtod_rest_fraction_malformed_exp [OF assms(2,3,4)])
qed

lemma digits_examples:
  "digits ''1''" "digits ''12''" "digits ''5''" "isDigit (CHR ''1'')"
  "malformed_exp []" "malformed_exp ''+''" "malformed_exp ''x1''"
  by (simp_all add: digits_def isDigit_def malformed_exp_def)

text \<open>
  Claim C7. Malformed number literals are rejected with \<open>LeptParseInvalidValue\<close>, with
  or without a leading minus sign: a zero followed by a digit; a minus sign followed by
  no digit; an integer part and a point followed by no digit; an integer part, with or
  without a fraction, and \<open>e\<close> or \<open>E\<close> followed by a malformed exponent (nothing, a sign
  without a digit, or a byte that is neither sign nor digit). In particular \<open>0123\<close>,
  \<open>-\<close>, \<open>1.\<close> and \<open>1e\<close> are rejected.
\<close>

theorem malformed_numbers_rejected:
  "(mi = [] \<or> mi = ''-'') \<longrightarrow>
     (isDigit d \<longrightarrow>
        map_option fst (LeptParse ops (Some v) (mi @ CHR ''0'' # d # rest)) = Some LeptParseInvalidValue) \<and>
     (no_digit_ahead rest \<longrightarrow>
        map_option fst (LeptParse ops (Some v) (CHR ''-'' # rest)) = Some LeptParseInvalidValue) \<and>
     (digits ds \<and> no_digit_ahead rest \<longrightarrow>
        map_option fst (LeptParse ops (Some v) (mi @ ds @ CHR ''.'' # rest)) = Some LeptParseInvalidValue) \<and>
     (digits ds \<and> (ex = CHR ''e'' \<or> ex = CHR ''E'') \<and> malformed_exp t \<longrightarrow>
        map_option fst (LeptParse ops (Some v) (mi @ ds @ ex # t)) = Some LeptParseInvalidValue) \<and>
     (digits ds \<and> digits fs \<and> (ex = CHR ''e'' \<or> ex = CHR ''E'') \<and> malformed_exp t \<longrightarrow>
        map_option fst (LeptParse ops (Some v) (mi @ ds @ CHR ''.'' # fs @ ex # t)) = Some LeptParseInvalidValue) \<and>
     map_option fst (LeptParse ops (Some v) ''0123'') = Some LeptParseInvalidValue \<and>
     map_option fst (LeptParse ops (Some v) ''-'') = Some LeptParseInvalidValue \<and>
     map_option fst (LeptParse ops (Some v) ''1.'') = Some LeptParseInvalidValue \<and>
     map_option fst (LeptParse ops (Some v) ''1e'') = Some LeptParseInvalidValue"
proof -
  have a: "map_option fst (LeptParse ops (Some v) ''0123'') = Some LeptParseInvalidValue"
    using leading_zero_rejected [of "CHR ''1''" "[]" ops v "''23''"] digits_examples by simp
  have b: "map_option fst (LeptParse ops (Some v) ''-'') = Some LeptParseInvalidValue"
    using minus_without_digit_rejected [of "[]" ops v] by simp
  have c: "map_option fst (LeptParse ops (Some v) ''1.'') = Some LeptParseInvalidValue"
    using empty_fraction_rejected [of "''1''" "[]" "[]" ops v] digits_examples by simp
  have d: "map_option fst (LeptParse ops (Some v) ''1e'') = Some LeptParseInvalidValue"
    using malformed_exponent_rejected [of "''1''" "CHR ''e''" "[]" "[]" ops v] digits_examples by simp
  show ?thesis
  proof (intro impI conjI)
    assume mi: "mi = [] \<or> mi = ''-''"
    show "map_option fst (LeptParse ops (Some v) (mi @ CHR ''0'' # d # rest)) = Some LeptParseInvalidValue"
      if "isDigit d"
      using that mi by (rule leading_zero_rejected)
    show "map_option fst (LeptParse ops (Some v) (CHR ''-'' # rest)) = Some LeptParseInvalidValue"
      if "no_digit_ahead rest"
      using that by (rule minus_without_digit_rejected)
    show "map_option fst (LeptParse ops (Some v) (mi @ ds @ CHR ''.'' # rest)) = Some LeptParseInvalidValue"
      if "digits ds \<and> no_digit_ahead rest"
      using that mi by (intro empty_fraction_rejected) simp_all
    show "map_option fst (LeptParse ops (Some v) (mi @ ds @ ex # t)) = Some LeptParseInvalidValue"
      if "digits ds \<and> (ex = CHR ''e'' \<or> ex = CHR ''E'') \<and> malformed_exp t"
      using that mi by (intro malformed_exponent_rejected) simp_all
    show "map_option fst (LeptParse ops (Some v) (mi @ ds @ CHR ''.'' # fs @ ex # t)) = Some LeptParseInvalidValue"
      if "digits ds \<and> digits fs \<and> (ex = CHR ''e'' \<or> ex = CHR ''E'') \<and> malformed_exp t"
      using that mi by (intro fraction_malformed_exponent_rejected) simp_all
  qed (rule a b c d)+
qed

theorem malformed_numbers_rejected_witness:
  "(''-'' = [] \<or> ''-'' = ''-'') \<and> isDigit (CHR ''1'') \<and> no_digit_ahead ''x'' \<and>
   digits ''12'' \<and> digits ''5'' \<and> (CHR ''E'' = CHR ''e'' \<or> CHR ''E'' = CHR ''E'') \<and>
   malformed_exp ''+'' \<and>
   map_option fst (LeptParse expr_ops (Some (NewLeptValue expr_ops)) (''-'' @ CHR ''0'' # CHR ''1'' # ''x''))
     = Some LeptParseInvalidValue \<and>
   map_option fst (LeptParse expr_ops (Some (NewLeptValue expr_ops)) (CHR ''-'' # ''x'')) = Some LeptParseInvalidValue \<and>
   map_option fst (LeptParse expr_ops (Some (NewLeptValue expr_ops)) (''-'' @ ''12'' @ CHR ''.'' # ''x''))
     = Some LeptParseInvalidValue \<and>
   map_option fst (LeptParse expr_ops (Some (NewLeptValue expr_ops)) (''-'' @ ''12'' @ CHR ''E'' # ''+''))
     = Some LeptParseInvalidValue \<and>
   map_option fst (LeptParse expr_ops (Some (NewLeptValue expr_ops)) (''-'' @ ''12'' @ CHR ''.'' # ''5'' @ CHR ''E'' # ''+''))
     = Some LeptParseInvalidValue"
proof -
  have h: "isDigit (CHR ''1'')" "no_digit_ahead ''x''" "digits ''12''" "digits ''5''"
      "malformed_exp ''+''"
    by (simp_all add: digits_def isDigit_def malformed_exp_def)
  have m: "''-'' = [] \<or> ''-'' = ''-''" and e: "CHR ''E'' = CHR ''e'' \<or> CHR ''E'' = CHR ''E''"
    by simp_all
  from h m e malformed_numbers_rejected [of "''-''" "CHR ''1''" expr_ops "NewLeptValue expr_ops" "''x''" "''12''"
        "CHR ''E''" "''+''" "''5''"]
  show ?thesis by blast
qed

section \<open>What the number parser accepts\<close>

lemma number_byte_simps [simp]:
  "number_byte (CHR ''-'')" "number_byte (CHR ''+'')" "number_byte (CHR ''.'')"
  "number_byte (CHR ''e'')" "number_byte (CHR ''E'')" "number_byte (CHR ''0'')"
  by (simp_all add: number_byte_def)

lemma number_bytes_split:
  assumes "list_all number_byte (dropWhile isDigit inp)"
  shows "list_all number_byte inp"
proof -
  have "set inp = set (takeWhile isDigit inp) \<union> set (dropWhile isDigit inp)"
    by (metis set_append takeWhile_dropWhile_id)
  with assms show ?thesis
    by (auto simp: list_all_iff number_byte_def dest: set_takeWhileD)
qed

lemma parseInteger_ok:
  assumes "parseInteger inp = Some (rest, i, None)"
  shows "rest = dropWhile isDigit inp"
  using assms by (simp add: parseInteger_eq split: if_splits)

lemma parseInteger_all:
  assumes "parseInteger inp = Some ([], i, None)"
  shows "list_all number_byte inp"
proof -
  from parseInteger_ok [OF assms] have "dropWhile isDigit inp = []" by simp
  then have "\<forall>x\<in>set inp. isDigit x" by simp
  then show ?thesis by (simp add: list_all_iff number_byte_def)
qed

lemma parseExp_Nil: "parseExp [] = None"
  by (simp add: parseExp_def or_else_def eq_def)

lemma parseExp_all:
  assumes "parseExp inp = Some ([], i, None)"
  shows "list_all number_byte inp"
proof (cases inp)
  case Nil
  with assms show ?thesis by (simp add: parseExp_Nil)
next
  case (Cons x t)
  show ?thesis
  proof (cases "x = CHR ''e'' \<or> x = CHR ''E''")
    case False
    with assms Cons show ?thesis by (simp add: parseExp_other)
  next
    case ex: True
    then have nx: "number_byte x" by auto
    show ?thesis
    proof (cases t)
      case Nil
      with assms Cons ex show ?thesis by (simp add: parseExp_bare)
    next
      case t: (Cons y t')
      show ?thesis
      proof (cases "y = CHR ''-'' \<or> y = CHR ''+''")
        case True
        then have ny: "number_byte y" by auto
        obtain r j err where p: "parseInteger t' = Some (r, j, err)"
          using parseInteger_total by blast
        with assms Cons t ex True have "err = None" "r = []"
          by (auto simp: parseExp_signed split: if_splits)
        with p have "parseInteger t' = Some ([], j, None)" by simp
        then have "list_all number_byte t'" by (rule parseInteger_all)
        with nx ny Cons t show ?thesis by simp
      next
        case False
        obtain r j err where p: "parseInteger (y # t') = Some (r, j, err)"
          using parseInteger_total by blast
        with assms Cons t ex False have "err = None" "r = []"
          by (auto simp: parseExp_unsigned split: if_splits)
        with p have "parseInteger (y # t') = Some ([], j, None)" by simp
        then have "list_all number_byte (y # t')" by (rule parseInteger_all)
        with nx Cons t show ?thesis by simp
      qed
    qed
  qed
qed

lemma strtod_rest_all:
  assumes "strtod_rest ops neg inp i = Some (r, e, None)"
  shows "list_all number_byte inp"
proof (cases inp)
  case Nil
  then show ?thesis by simp
next
  case (Cons x t)
  consider (dot) "x = CHR ''.''" | (ex) "x = CHR ''e'' \<or> x = CHR ''E''"
    | (other) "x \<noteq> CHR ''.''" "x \<noteq> CHR ''e''" "x \<noteq> CHR ''E''"
    by blast
  then show ?thesis
  proof cases
    case dot
    obtain input1 d err where p: "parseInteger t = Some (input1, d, err)"
      using parseInteger_total by blast
    with assms Cons dot have err: "err = None"
      by (auto simp: strtod_rest_dot split: if_splits)
    with p have input1: "input1 = dropWhile isDigit t" by (auto dest: parseInteger_ok)
    have "list_all number_byte input1"
    proof (cases input1)
      case Nil
      then show ?thesis by simp
    next
      case c1: (Cons y ys)
      obtain input2 k err2 where q: "parseExp (y # ys) = Some (input2, k, err2)"
        using parseExp_total by blast
      with assms Cons dot p err c1 have "err2 = None \<and> input2 = []"
        by (auto simp: strtod_rest_dot Let_def split: if_splits)
      with q c1 have "parseExp input1 = Some ([], k, None)" by simp
      then show ?thesis by (rule parseExp_all)
    qed
    with input1 have "list_all number_byte (dropWhile isDigit t)" by (simp only:)
    then have "list_all number_byte t" by (rule number_bytes_split)
    with Cons dot show ?thesis by simp
  next
    case ex
    obtain input1 k err where q: "parseExp (x # t) = Some (input1, k, err)"
      using parseExp_total by blast
    with assms Cons ex have "err = None \<and> input1 = []"
      by (auto simp: strtod_rest_exp split: if_splits)
    with q Cons have "parseExp inp = Some ([], k, None)" by simp
    then show ?thesis by (rule parseExp_all)
  next
    case other
    with assms Cons show ?thesis by (simp add: strtod_rest_other)
  qed
qed

lemma strtod_int_all:
  assumes "strtod_int ops neg inp = Some (r, e, None)"
  shows "list_all number_byte inp"
proof (cases inp)
  case Nil
  with assms show ?thesis by (simp add: strtod_int_Nil)
next
  case (Cons d t)
  show ?thesis
  proof (cases "isDigit d")
    case False
    with assms Cons show ?thesis by (simp add: strtod_int_nondigit)
  next
    case dig: True
    have run: ?thesis if ok: "d = CHR ''0'' \<Longrightarrow> t \<noteq> [] \<and> hd t \<in> {CHR ''.'', CHR ''e'', CHR ''E''}"
    proof -
      obtain input1 i err where p: "parseInteger (d # t) = Some (input1, i, err)"
        using parseInteger_total by blast
      from strtod_int_digit [OF dig ok, of ops neg] p
      have eq: "strtod_int ops neg (d # t) =
          (if err \<noteq> None then Some (f64_of_int ops 0, [], err) else strtod_rest ops neg input1 i)"
        by simp
      with assms Cons have err: "err = None" and rest: "strtod_rest ops neg input1 i = Some (r, e, None)"
        by (auto split: if_splits)
      from p err have "input1 = dropWhile isDigit (d # t)" by (auto dest: parseInteger_ok)
      with strtod_rest_all [OF rest] have "list_all number_byte (dropWhile isDigit (d # t))"
        by (simp only:)
      then have "list_all number_byte (d # t)" by (rule number_bytes_split)
      with Cons show ?thesis by (simp only:)
    qed
    show ?thesis
    proof (cases "d = CHR ''0''")
      case False
      then show ?thesis by (intro run) simp
    next
      case zero: True
      show ?thesis
      proof (cases t)
        case Nil
        with Cons zero show ?thesis by simp
      next
        case t: (Cons x t')
        show ?thesis
        proof (cases "x \<in> {CHR ''.'', CHR ''e'', CHR ''E''}")
          case True
          with t show ?thesis by (intro run) simp
        next
          case False
          with assms Cons zero t show ?thesis by (simp add: strtod_int_leading_zero)
        qed
      qed
    qed
  qed
qed

lemma strtod_all:
  assumes "strtod ops inp = Some (r, e, None)"
  shows "list_all number_byte inp"
proof (cases inp)
  case Nil
  with assms show ?thesis by (simp add: strtod_Nil)
next
  case (Cons x t)
  show ?thesis
  proof (cases "x = CHR ''-''")
    case True
    with assms Cons have "strtod_int ops True t = Some (r, e, None)" by (simp add: strtod_minus)
    then have "list_all number_byte t" by (rule strtod_int_all)
    with True Cons show ?thesis by simp
  next
    case False
    with assms Cons have "strtod_int ops False (x # t) = Some (r, e, None)" by (simp add: strtod_unsigned)
    then have "list_all number_byte (x # t)" by (rule strtod_int_all)
    with Cons show ?thesis by simp
  qed
qed

lemma LeptParseNumber_ok:
  assumes "LeptParseNumber ops c v = Some (LeptParseOK, c', v')"
  shows "json c' = [] \<and> list_all number_byte (json c)"
proof -
  from assms obtain r e where s: "strtod ops (json c) = Some (r, e, None)" and c': "c' = c\<lparr>json := e\<rparr>"
    by (auto simp: LeptParseNumber_eq split: option.splits if_splits)
  from s have "e = []" by (rule strtod_end_empty)
  with c' strtod_all [OF s] show ?thesis by simp
qed

lemma LeptParseNumber_foreign_byte:
  assumes "json c \<noteq> []" and "\<not> list_all number_byte (json c)"
  shows "map_option fst (LeptParseNumber ops c v) = Some LeptParseInvalidValue"
proof -
  from strtod_total [OF assms(1), of ops] obtain r err where s: "strtod ops (json c) = Some (r, [], err)"
    by blast
  have "err \<noteq> None"
  proof
    assume "err = None"
    with s have "strtod ops (json c) = Some (r, [], None)" by simp
    from strtod_all [OF this] assms(2) show False by simp
  qed
  with s show ?thesis by (auto simp: LeptParseNumber_eq)
qed

text \<open>
  Whenever the number parser succeeds, the cursor is left at the end of the input and
  the whole input consisted of number bytes (digits, signs, the point, \<open>e\<close> and \<open>E\<close>).
  A non-empty input with any other byte in it, a trailing blank included, makes the
  number parser return \<open>LeptParseInvalidValue\<close>.
\<close>

lemma number_parser_takes_whole_input:
  "(LeptParseNumber ops c v = Some (LeptParseOK, c', v') \<longrightarrow>
      json c' = [] \<and> list_all number_byte (json c)) \<and>
   (json c \<noteq> [] \<and> \<not> list_all number_byte (json c) \<longrightarrow>
      map_option fst (LeptParseNumber ops c v) = Some LeptParseInvalidValue)"
  using LeptParseNumber_ok LeptParseNumber_foreign_byte by blast

text \<open>
  Claim C4 at a failing input. \<open>LeptParseNumber\<close> assigns the end that \<open>strtod\<close>
  returns to the cursor, but \<open>strtod\<close> returns the empty string on every path and
  fails on any byte behind the number. So the number parser accepts \<open>1\<close> and by itself
  rejects \<open>1\<close> followed by a blank, which it should leave to the caller; the entry
  parse, which would skip the blank, returns \<open>LeptParseInvalidValue\<close>.
\<close>

theorem number_parser_rejects_trailing_blank:
  "LeptParseNumber expr_ops \<lparr>json = ''1''\<rparr> (NewLeptValue expr_ops)
     = Some (LeptParseOK, \<lparr>json = []\<rparr>, (NewLeptValue expr_ops)\<lparr>n := Float64_of_int 1, typ := LeptNUMBER\<rparr>) \<and>
   LeptParseNumber expr_ops \<lparr>json = ''1 ''\<rparr> (NewLeptValue expr_ops)
     = Some (LeptParseInvalidValue, \<lparr>json = ''1 ''\<rparr>, (NewLeptValue expr_ops)\<lparr>n := Float64_of_int 1\<rparr>) \<and>
   LeptParse expr_ops (Some (NewLeptValue expr_ops)) ''1 ''
     = Some (LeptParseInvalidValue, (NewLeptValue expr_ops)\<lparr>typ := LeptNULL, n := Float64_of_int 1\<rparr>)"
  by code_simp

section \<open>Arrays\<close>

lemma LeptParse_bracket:
  assumes "list_all is_ws w"
  shows "LeptParse ops (Some v) (w @ CHR ''['' # rest)
           = Some (LeptParseInvalidValue, v\<lparr>typ := LeptNULL, n := f64_of_int ops 0\<rparr>)"
proof -
  have nws: "\<not> is_ws (CHR ''['')" by (simp add: is_ws_def)
  have "strtod ops (CHR ''['' # rest) = Some (f64_of_int ops 0, [], Some IllegalInput)"
    by (simp add: strtod_unsigned strtod_int_nondigit isDigit_def)
  from LeptParse_number [OF nws _ _ _ _ this, of v]
  have "LeptParse ops (Some v) (CHR ''['' # rest)
           = Some (LeptParseInvalidValue, v\<lparr>typ := LeptNULL, n := f64_of_int ops 0\<rparr>)"
    by simp
  moreover have "dropWhile is_ws (w @ CHR ''['' # rest) = dropWhile is_ws (CHR ''['' # rest)"
    using assms by (rule dropWhile_ws_append)
  ultimately show ?thesis
    by (simp only: LeptParse_eq)
qed

text \<open>
  Claim C3, as the code has it. The parser has no arrays: the value parser has no
  branch for \<open>[\<close>, so every input whose first byte after the leading whitespace is
  \<open>[\<close> goes to the number parser and returns \<open>LeptParseInvalidValue\<close>, with the output
  in the null state.
\<close>

theorem arrays_rejected:
  "list_all is_ws w \<longrightarrow>
     LeptParse ops (Some v) (w @ CHR ''['' # rest)
       = Some (LeptParseInvalidValue, v\<lparr>typ := LeptNULL, n := f64_of_int ops 0\<rparr>)"
  using LeptParse_bracket by blast

theorem arrays_rejected_witness:
  "list_all is_ws '' '' \<and>
   LeptParse expr_ops (Some (NewLeptValue expr_ops)) ('' '' @ CHR ''['' # ''1,2]'')
     = Some (LeptParseInvalidValue, (NewLeptValue expr_ops)\<lparr>typ := LeptNULL, n := Float64_of_int 0\<rparr>)"
proof -
  have "list_all is_ws '' ''" by (simp add: is_ws_def)
  with arrays_rejected [of "'' ''" expr_ops "NewLeptValue expr_ops" "''1,2]''"] show ?thesis by simp
qed

text \<open>Claim C3 fails as stated: the empty array is rejected.\<close>

theorem empty_array_rejected:
  "LeptParse expr_ops (Some (NewLeptValue expr_ops)) ''[]''
     = Some (LeptParseInvalidValue, (NewLeptValue expr_ops)\<lparr>typ := LeptNULL\<rparr>)"
  by code_simp

section \<open>The value of a number\<close>



lemma decimal_value_zero: "decimal_value ''0'' = 0"
  by (simp add: decimal_value_def)










text \<open>
  Fractions of more than 18 digits are outside the statement above: there the \<open>int\<close>
  that holds the power of ten wraps around. The text below is the exact decimal
  expansion of \<open>2 ^ -19\<close>; its 19 fraction digits give the divisor \<open>10 ^ 19 - 2 ^ 64\<close>.
\<close>

lemma long_fraction_wraps:
  "LeptParse expr_ops (Some (NewLeptValue expr_ops)) ''0.0000019073486328125''
     = Some (LeptParseOK,
         (NewLeptValue expr_ops)\<lparr>n := Float64_add (Float64_of_int 0)
                              (Float64_div (Float64_of_int 19073486328125)
                                 (Float64_of_int (- 8446744073709551616))),
           typ := LeptNUMBER\<rparr>)"
  by code_simp

section \<open>String errors\<close>

lemma at_append_length: "at (pre @ x # suf) (length pre) = Some x"
  by (simp add: at_def)

lemma at_append_length_Suc: "at (pre @ x # y # suf) (Suc (length pre)) = Some y"
  by (simp add: at_def nth_append)

lemma LeptParseString_loop_skip:
  assumes "string_chars p" and "json c = pre @ p @ suf"
  shows "\<exists>stack'. LeptParseString_loop c v stack (length pre)
           = LeptParseString_loop c v stack' (length pre + length p)"
  using assms
proof (induction p arbitrary: pre stack rule: string_chars.induct)
  case 1
  then show ?case by auto
next
  case (2 ch)
  then have "LeptParseString_loop c v stack (length pre)
      = LeptParseString_loop c v (stack @ [ch]) (length pre + 1)"
    by (subst LeptParseString_loop.simps) (simp add: at_append_length)
  then show ?case by auto
next
  case (3 ch e rest)
  from "3.prems" have nq: "ch \<noteq> CHR 0x22" by (auto split: if_splits)
  show ?case
  proof (cases "ch = CHR 0x5C")
    case True
    with "3.prems" obtain b where b: "escape e = Some b" and rest: "string_chars rest"
      by auto
    from "3.prems"(2) have c: "json c = (pre @ [ch, e]) @ rest @ suf" by simp
    from "3.IH"(1) [OF nq True rest c] obtain stack' where
      "LeptParseString_loop c v (stack @ [b]) (length (pre @ [ch, e]))
         = LeptParseString_loop c v stack' (length (pre @ [ch, e]) + length rest)"
      by blast
    moreover have "LeptParseString_loop c v stack (length pre)
        = LeptParseString_loop c v (stack @ [b]) (length pre + 1 + 1)"
      using "3.prems"(2) True b
      by (subst LeptParseString_loop.simps)
        (simp add: at_append_length at_append_length_Suc)
    ultimately show ?thesis by auto
  next
    case False
    with "3.prems" nq have ch: "\<not> (of_char ch :: nat) < 0x20" and rest: "string_chars (e # rest)"
      by auto
    from "3.prems"(2) have c: "json c = (pre @ [ch]) @ (e # rest) @ suf" by simp
    from "3.IH"(2) [OF nq False rest c] obtain stack' where
      "LeptParseString_loop c v (stack @ [ch]) (length (pre @ [ch]))
         = LeptParseString_loop c v stack' (length (pre @ [ch]) + length (e # rest))"
      by blast
    moreover have "LeptParseString_loop c v stack (length pre)
        = LeptParseString_loop c v (stack @ [ch]) (length pre + 1)"
      using "3.prems"(2) False nq ch
      by (subst LeptParseString_loop.simps) (simp add: at_append_length)
    ultimately show ?thesis by auto
  qed
qed

lemma LeptParseString_loop_end:
  assumes "i = length (json c)"
  shows "LeptParseString_loop c v stack i = Some (LeptParseMissQuotationMark, c, v)"
  using assms by (subst LeptParseString_loop.simps) simp

lemma LeptParseString_loop_backslash_end:
  assumes "json c = pre @ [CHR 0x5C]"
  shows "LeptParseString_loop c v stack (length pre) = Some (LeptParseInvalidStringEscape, c, v)"
  using assms by (subst LeptParseString_loop.simps) (simp add: at_append_length)

lemma LeptParseString_loop_bad_escape:
  assumes "json c = pre @ CHR 0x5C # e # rest" and "escape e = None"
  shows "LeptParseString_loop c v stack (length pre) = Some (LeptParseInvalidStringEscape, c, v)"
  using assms
  by (subst LeptParseString_loop.simps) (simp add: at_append_length at_append_length_Suc)

lemma control_not_special:
  assumes "(of_char ch :: nat) < 0x20"
  shows "ch \<noteq> CHR 0x22" "ch \<noteq> CHR 0x5C"
  using assms by auto

lemma LeptParseString_loop_control:
  assumes "json c = pre @ ch # rest" and "(of_char ch :: nat) < 0x20"
  shows "LeptParseString_loop c v stack (length pre) = Some (LeptParseInvalidStringChar, c, v)"
  using assms control_not_special [OF assms(2)]
  by (subst LeptParseString_loop.simps) (simp add: at_append_length)

lemma LeptParseString_prefix:
  assumes "string_chars p"
  shows "\<exists>stack'. LeptParseString \<lparr>json = CHR 0x22 # p @ suf\<rparr> v
           = LeptParseString_loop \<lparr>json = p @ suf\<rparr> v stack' (length p)"
  using LeptParseString_loop_skip [OF assms, of "\<lparr>json = p @ suf\<rparr>" "[]" suf v "[]"]
  by (simp add: LeptParseString_def)

lemma unterminated_string:
  assumes "string_chars p"
  shows "LeptParseString \<lparr>json = CHR 0x22 # p\<rparr> v
           = Some (LeptParseMissQuotationMark, \<lparr>json = p\<rparr>, v)"
  using LeptParseString_prefix [OF assms, of "[]" v]
  by (auto simp: LeptParseString_loop_end)

lemma backslash_at_end:
  assumes "string_chars p"
  shows "LeptParseString \<lparr>json = CHR 0x22 # p @ [CHR 0x5C]\<rparr> v
           = Some (LeptParseInvalidStringEscape, \<lparr>json = p @ [CHR 0x5C]\<rparr>, v)"
  using LeptParseString_prefix [OF assms, of "[CHR 0x5C]" v]
  by (auto simp: LeptParseString_loop_backslash_end)

lemma unknown_escape:
  assumes "string_chars p" and "escape e = None"
  shows "LeptParseString \<lparr>json = CHR 0x22 # p @ CHR 0x5C # e # rest\<rparr> v
           = Some (LeptParseInvalidStringEscape, \<lparr>json = p @ CHR 0x5C # e # rest\<rparr>, v)"
  using LeptParseString_prefix [OF assms(1), of "CHR 0x5C # e # rest" v] assms(2)
  by (auto simp: LeptParseString_loop_bad_escape)

lemma raw_control_byte:
  assumes "string_chars p" and "(of_char ch :: nat) < 0x20"
  shows "LeptParseString \<lparr>json = CHR 0x22 # p @ ch # rest\<rparr> v
           = Some (LeptParseInvalidStringChar, \<lparr>json = p @ ch # rest\<rparr>, v)"
  using LeptParseString_prefix [OF assms(1), of "ch # rest" v] assms(2)
  by (auto simp: LeptParseString_loop_control)

lemma escape_None_iff:
  "escape e = None \<longleftrightarrow>
     e \<notin> {CHR 0x22, CHR 0x5C, CHR ''/'', CHR ''b'', CHR ''f'', CHR ''n'', CHR ''r'', CHR ''t''}"
  by (simp add: escape_def)

lemma LeptParse_string:
  assumes "LeptParseString \<lparr>json = CHR 0x22 # body\<rparr> (v\<lparr>typ := LeptNULL\<rparr>) = Some (ret, c', v')"
    and "ret \<noteq> LeptParseOK"
  shows "LeptParse ops (Some v) (CHR 0x22 # body) = Some (ret, v')"
  using assms by (simp add: LeptParse_eq is_ws_def LeptParseValue_Cons)

lemma string_chars_examples:
  "string_chars ''abc''" "string_chars (''ab'' @ [CHR 0x5C, CHR ''n''])" "string_chars []"
  "escape (CHR ''x'') = None" "escape (CHR ''u'') = None" "(of_char (CHR 0x09) :: nat) < 0x20"
  by (simp_all add: escape_def)

text \<open>
  Claim C8. After the opening quotation mark and any sequence \<open>p\<close> of unescaped bytes
  and supported escapes, the string parser fails in exactly one of three ways, decided
  by what follows \<open>p\<close>: the end of the input is \<open>LeptParseMissQuotationMark\<close>; a
  backslash at the end of the input, or followed by a byte outside the escape set
  \<open>" \ / b f n r t\<close>, is \<open>LeptParseInvalidStringEscape\<close>; a raw byte below \<open>0x20\<close> is
  \<open>LeptParseInvalidStringChar\<close>. The value is unchanged. In particular an unterminated
  \<open>"abc\<close>, the escape \<open>\x\<close> and a raw tab inside quotes give these three events.
\<close>

theorem string_errors:
  "(string_chars p \<longrightarrow>
      LeptParseString \<lparr>json = CHR 0x22 # p\<rparr> v
        = Some (LeptParseMissQuotationMark, \<lparr>json = p\<rparr>, v)) \<and>
   (string_chars p \<longrightarrow>
      LeptParseString \<lparr>json = CHR 0x22 # p @ [CHR 0x5C]\<rparr> v
        = Some (LeptParseInvalidStringEscape, \<lparr>json = p @ [CHR 0x5C]\<rparr>, v)) \<and>
   (string_chars p \<and>
    e \<notin> {CHR 0x22, CHR 0x5C, CHR ''/'', CHR ''b'', CHR ''f'', CHR ''n'', CHR ''r'', CHR ''t''} \<longrightarrow>
      LeptParseString \<lparr>json = CHR 0x22 # p @ CHR 0x5C # e # rest\<rparr> v
        = Some (LeptParseInvalidStringEscape, \<lparr>json = p @ CHR 0x5C # e # rest\<rparr>, v)) \<and>
   (string_chars p \<and> (of_char ch :: nat) < 0x20 \<longrightarrow>
      LeptParseString \<lparr>json = CHR 0x22 # p @ ch # rest\<rparr> v
        = Some (LeptParseInvalidStringChar, \<lparr>json = p @ ch # rest\<rparr>, v)) \<and>
   LeptParse ops (Some v) (CHR 0x22 # ''abc'')
     = Some (LeptParseMissQuotationMark, v\<lparr>typ := LeptNULL\<rparr>) \<and>
   LeptParse ops (Some v) [CHR 0x22, CHR 0x5C, CHR ''x'', CHR 0x22]
     = Some (LeptParseInvalidStringEscape, v\<lparr>typ := LeptNULL\<rparr>) \<and>
   LeptParse ops (Some v) [CHR 0x22, CHR 0x09, CHR 0x22]
     = Some (LeptParseInvalidStringChar, v\<lparr>typ := LeptNULL\<rparr>)"
proof (intro conjI impI)
  show "LeptParseString \<lparr>json = CHR 0x22 # p\<rparr> v
        = Some (LeptParseMissQuotationMark, \<lparr>json = p\<rparr>, v)" if "string_chars p"
    using that by (rule unterminated_string)
  show "LeptParseString \<lparr>json = CHR 0x22 # p @ [CHR 0x5C]\<rparr> v
        = Some (LeptParseInvalidStringEscape, \<lparr>json = p @ [CHR 0x5C]\<rparr>, v)" if "string_chars p"
    using that by (rule backslash_at_end)
  show "LeptParseString \<lparr>json = CHR 0x22 # p @ CHR 0x5C # e # rest\<rparr> v
        = Some (LeptParseInvalidStringEscape, \<lparr>json = p @ CHR 0x5C # e # rest\<rparr>, v)"
    if "string_chars p \<and>
        e \<notin> {CHR 0x22, CHR 0x5C, CHR ''/'', CHR ''b'', CHR ''f'', CHR ''n'', CHR ''r'', CHR ''t''}"
    using that by (intro unknown_escape) (simp_all add: escape_None_iff)
  show "LeptParseString \<lparr>json = CHR 0x22 # p @ ch # rest\<rparr> v
        = Some (LeptParseInvalidStringChar, \<lparr>json = p @ ch # rest\<rparr>, v)"
    if "string_chars p \<and> (of_char ch :: nat) < 0x20"
    using that by (intro raw_control_byte) simp_all
  show "LeptParse ops (Some v) (CHR 0x22 # ''abc'')
     = Some (LeptParseMissQuotationMark, v\<lparr>typ := LeptNULL\<rparr>)"
    by (rule LeptParse_string [OF unterminated_string]) (simp_all add: string_chars_examples)
  show "LeptParse ops (Some v) [CHR 0x22, CHR 0x5C, CHR ''x'', CHR 0x22]
     = Some (LeptParseInvalidStringEscape, v\<lparr>typ := LeptNULL\<rparr>)"
    using LeptParse_string [where ops = ops and v = v, OF unknown_escape [of "[]" "CHR ''x''" "[CHR 0x22]"]]
    by (simp add: string_chars_examples)
  show "LeptParse ops (Some v) [CHR 0x22, CHR 0x09, CHR 0x22]
     = Some (LeptParseInvalidStringChar, v\<lparr>typ := LeptNULL\<rparr>)"
    using LeptParse_string [where ops = ops and v = v, OF raw_control_byte [of "[]" "CHR 0x09" "[CHR 0x22]"]]
    by (simp add: string_chars_examples)
qed

theorem string_errors_witness:
  "string_chars (''ab'' @ [CHR 0x5C, CHR ''n'']) \<and>
   CHR ''u'' \<notin> {CHR 0x22, CHR 0x5C, CHR ''/'', CHR ''b'', CHR ''f'', CHR ''n'', CHR ''r'', CHR ''t''} \<and>
   (of_char (CHR 0x0A) :: nat) < 0x20 \<and>
   LeptParseString \<lparr>json = CHR 0x22 # (''ab'' @ [CHR 0x5C, CHR ''n''])\<rparr> (NewLeptValue expr_ops)
     = Some (LeptParseMissQuotationMark, \<lparr>json = ''ab'' @ [CHR 0x5C, CHR ''n'']\<rparr>, (NewLeptValue expr_ops)) \<and>
   LeptParseString \<lparr>json = CHR 0x22 # (''ab'' @ [CHR 0x5C, CHR ''n'']) @ [CHR 0x5C]\<rparr> (NewLeptValue expr_ops)
     = Some (LeptParseInvalidStringEscape,
         \<lparr>json = (''ab'' @ [CHR 0x5C, CHR ''n'']) @ [CHR 0x5C]\<rparr>, (NewLeptValue expr_ops)) \<and>
   LeptParseString
       \<lparr>json = CHR 0x22 # (''ab'' @ [CHR 0x5C, CHR ''n'']) @ CHR 0x5C # CHR ''u'' # ''0041''\<rparr>
       (NewLeptValue expr_ops)
     = Some (LeptParseInvalidStringEscape,
         \<lparr>json = (''ab'' @ [CHR 0x5C, CHR ''n'']) @ CHR 0x5C # CHR ''u'' # ''0041''\<rparr>,
         (NewLeptValue expr_ops)) \<and>
   LeptParseString \<lparr>json = CHR 0x22 # (''ab'' @ [CHR 0x5C, CHR ''n'']) @ CHR 0x0A # ''0041''\<rparr>
       (NewLeptValue expr_ops)
     = Some (LeptParseInvalidStringChar,
         \<lparr>json = (''ab'' @ [CHR 0x5C, CHR ''n'']) @ CHR 0x0A # ''0041''\<rparr>, (NewLeptValue expr_ops))"
proof -
  have h: "string_chars (''ab'' @ [CHR 0x5C, CHR ''n''])"
    "CHR ''u'' \<notin> {CHR 0x22, CHR 0x5C, CHR ''/'', CHR ''b'', CHR ''f'', CHR ''n'', CHR ''r'', CHR ''t''}"
    "(of_char (CHR 0x0A) :: nat) < 0x20"
    by (simp_all add: escape_def)
  from string_errors [of "''ab'' @ [CHR 0x5C, CHR ''n'']" "NewLeptValue expr_ops" "CHR ''u''" "''0041''"
      "CHR 0x0A"]
  show ?thesis by (simp only: h simp_thms)
qed

section \<open>Unicode escapes\<close>

text \<open>
  Claim C1 at its two examples. The escape switch of \<open>LeptParseString\<close> has no branch
  for \<open>u\<close>: the quoted escape \<open>u20AC\<close> and the quoted pair of escapes \<open>uD83D\<close>,
  \<open>uDE00\<close> both return \<open>LeptParseInvalidStringEscape\<close>, and no payload is stored.
\<close>

theorem unicode_escape_rejected:
  "LeptParse ops (Some v) (CHR 0x22 # CHR 0x5C # ''u20AC'' @ [CHR 0x22])
     = Some (LeptParseInvalidStringEscape, v\<lparr>typ := LeptNULL\<rparr>) \<and>
   LeptParse ops (Some v) (CHR 0x22 # CHR 0x5C # ''uD83D'' @ CHR 0x5C # ''uDE00'' @ [CHR 0x22])
     = Some (LeptParseInvalidStringEscape, v\<lparr>typ := LeptNULL\<rparr>)"
proof
  show "LeptParse ops (Some v) (CHR 0x22 # CHR 0x5C # ''u20AC'' @ [CHR 0x22])
     = Some (LeptParseInvalidStringEscape, v\<lparr>typ := LeptNULL\<rparr>)"
    using LeptParse_string [where ops = ops and v = v, OF unknown_escape [of "[]" "CHR ''u''" "''20AC'' @ [CHR 0x22]"]]
    by (simp add: string_chars_examples)
  show "LeptParse ops (Some v) (CHR 0x22 # CHR 0x5C # ''uD83D'' @ CHR 0x5C # ''uDE00'' @ [CHR 0x22])
     = Some (LeptParseInvalidStringEscape, v\<lparr>typ := LeptNULL\<rparr>)"
    using LeptParse_string [where ops = ops and v = v, OF unknown_escape [of "[]" "CHR ''u''"
          "''D83D'' @ CHR 0x5C # ''uDE00'' @ [CHR 0x22]"]]
    by (simp add: string_chars_examples)
qed

section \<open>The output value after a failure\<close>

lemma LeptParseString_loop_failure:
  "LeptParseString_loop c v stack i = Some (ret, c', v') \<Longrightarrow> ret \<noteq> LeptParseOK \<Longrightarrow> v' = v"
proof (induction c v stack i rule: LeptParseString_loop.induct)
  case (1 c v stack i)
  from "1.prems" "1.IH" show ?case
    by (subst (asm) LeptParseString_loop.simps)
      (auto split: if_splits option.splits)
qed

lemma literal_failure:
  "LeptParseNull \<lparr>json = CHR ''n'' # t\<rparr> v = Some (ret, c', v') \<Longrightarrow> ret \<noteq> LeptParseOK \<Longrightarrow> v' = v"
  "LeptParseTrue \<lparr>json = CHR ''t'' # t\<rparr> v = Some (ret, c', v') \<Longrightarrow> ret \<noteq> LeptParseOK \<Longrightarrow> v' = v"
  "LeptParseFalse \<lparr>json = CHR ''f'' # t\<rparr> v = Some (ret, c', v') \<Longrightarrow> ret \<noteq> LeptParseOK \<Longrightarrow> v' = v"
proof -
  show "v' = v" if "LeptParseNull \<lparr>json = CHR ''n'' # t\<rparr> v = Some (ret, c', v')" "ret \<noteq> LeptParseOK"
  proof (cases "take 3 t = ''ull''")
    case True
    then have "t = ''ull'' @ drop 3 t" by (metis append_take_drop_id)
    then obtain rest where "t = ''ull'' @ rest" ..
    with that LeptParseNull_match [of rest v] show ?thesis by simp
  next
    case False
    with that show ?thesis by (simp add: LeptParseNull_mismatch)
  qed
  show "v' = v" if "LeptParseTrue \<lparr>json = CHR ''t'' # t\<rparr> v = Some (ret, c', v')" "ret \<noteq> LeptParseOK"
  proof (cases "take 3 t = ''rue''")
    case True
    then have "t = ''rue'' @ drop 3 t" by (metis append_take_drop_id)
    then obtain rest where "t = ''rue'' @ rest" ..
    with that LeptParseTrue_match [of rest v] show ?thesis by simp
  next
    case False
    with that show ?thesis by (simp add: LeptParseTrue_mismatch)
  qed
  show "v' = v" if "LeptParseFalse \<lparr>json = CHR ''f'' # t\<rparr> v = Some (ret, c', v')" "ret \<noteq> LeptParseOK"
  proof (cases "take 4 t = ''alse''")
    case True
    then have "t = ''alse'' @ drop 4 t" by (metis append_take_drop_id)
    then obtain rest where "t = ''alse'' @ rest" ..
    with that LeptParseFalse_match [of rest v] show ?thesis by simp
  next
    case False
    with that show ?thesis by (simp add: LeptParseFalse_mismatch)
  qed
qed

lemma LeptParseValue_failure:
  assumes "LeptParseValue ops c v = Some (ret, c', v')" and "ret \<noteq> LeptParseOK"
  shows "typ v' = typ v"
proof (cases "json c")
  case Nil
  with assms show ?thesis by (simp add: LeptParseValue_def)
next
  case (Cons x t)
  then have c: "c = \<lparr>json = x # t\<rparr>" by (metis LeptContext_eta)
  have num: "typ v' = typ v" if "LeptParseNumber ops \<lparr>json = x # t\<rparr> v = Some (ret, c', v')"
    using that assms(2)
    by (auto simp: LeptParseNumber_eq split: option.splits if_splits)
  have str: "typ v' = typ v" if "LeptParseString \<lparr>json = CHR 0x22 # t\<rparr> v = Some (ret, c', v')"
    using that assms(2) LeptParseString_loop_failure [of "\<lparr>json = t\<rparr>" v "[]" 0 ret c' v']
    by (simp add: LeptParseString_def)
  from assms show ?thesis
    unfolding c LeptParseValue_Cons
    using num str literal_failure [of t v ret c' v']
    by (auto split: if_splits)
qed

text \<open>
  Every failure other than \<open>LeptParseRootNotSingular\<close> leaves the output in the null
  state that \<open>LeptParse\<close> sets before it parses.
\<close>

lemma failure_keeps_null:
  assumes "LeptParse ops (Some v) input = Some (ret, v')"
    and "ret \<noteq> LeptParseOK" and "ret \<noteq> LeptParseRootNotSingular"
  shows "typ v' = LeptNULL"
proof -
  obtain r c2 v2 where
    val: "LeptParseValue ops \<lparr>json = dropWhile is_ws input\<rparr> (v\<lparr>typ := LeptNULL\<rparr>) = Some (r, c2, v2)"
    using LeptParseValue_total [of ops "\<lparr>json = dropWhile is_ws input\<rparr>" "v\<lparr>typ := LeptNULL\<rparr>"]
    by (metis prod_cases3)
  with assms have "r \<noteq> LeptParseOK" "v' = v2"
    by (auto simp: LeptParse_eq split: if_splits)
  with LeptParseValue_failure [OF val] show ?thesis by simp
qed

text \<open>
  Claim C5 at a failing input. \<open>LeptParse\<close> sets the null state before it parses, and does
  not set it again when it finds input behind the value: \<open>true false\<close> returns
  \<open>LeptParseRootNotSingular\<close> with the tag \<open>LeptTRUE\<close> in the output.
\<close>

theorem root_not_singular_keeps_tag:
  "LeptParse ops (Some v) ''true false'' = Some (LeptParseRootNotSingular, v\<lparr>typ := LeptTRUE\<rparr>) \<and>
   typ (v\<lparr>typ := LeptTRUE\<rparr>) \<noteq> LeptNULL"
  using LeptParse_true_trailing [of "[]" "'' ''" "CHR ''f''" ops v "''alse''"]
  by (simp add: is_ws_def)

section \<open>Text behind a number\<close>

lemma number_before_byte:
  assumes "int_part ds" and "list_all is_ws w"
    and "\<not> isDigit x" "x \<noteq> CHR ''.''" "x \<noteq> CHR ''e''" "x \<noteq> CHR ''E''"
  shows "LeptParse ops (Some v) (w @ ds @ x # rest)
           = Some (LeptParseInvalidValue,
               v\<lparr>typ := LeptNULL, n := f64_of_int ops (decimal_value ds)\<rparr>)"
proof -
  from assms(1) obtain d ds' where d: "ds = d # ds'" "isDigit d" "list_all isDigit ds"
    and fit: "decimal_value ds \<le> 2 ^ 63 - 1" and lead: "d = CHR ''0'' \<Longrightarrow> ds' = []"
    by (cases ds) (auto simp: int_part_def fits_def digits_def)
  then have nm: "d \<noteq> CHR ''-''" by auto
  have "strtod_int ops False (d # ds' @ x # rest)
      = Some (f64_of_int ops (decimal_value ds), [], Some IllegalInput)"
  proof (cases "d = CHR ''0''")
    case True
    with lead d(1) assms(4-6) show ?thesis
      by (simp add: strtod_int_leading_zero decimal_value_zero)
  next
    case False
    then have h: "d = CHR ''0'' \<Longrightarrow>
        ds' @ x # rest \<noteq> [] \<and> hd (ds' @ x # rest) \<in> {CHR ''.'', CHR ''e'', CHR ''E''}"
      by simp
    have pi: "parseInteger (d # ds' @ x # rest) = Some (x # rest, decimal_value ds, None)"
      using parseInteger_run [OF d(3), of "x # rest"] assms(3) d(1) fit by simp
    from strtod_int_digit [OF d(2) h, of ops False] assms(4-6) show ?thesis
      by (simp add: pi strtod_rest_other)
  qed
  then have "strtod ops (d # ds' @ x # rest)
      = Some (f64_of_int ops (decimal_value ds), [], Some IllegalInput)"
    using nm by (simp add: strtod_unsigned)
  from LeptParse_number [OF isDigit_dispatch [of d] this, of v] d(1,2)
  have "LeptParse ops (Some v) (ds @ x # rest)
           = Some (LeptParseInvalidValue,
               v\<lparr>typ := LeptNULL, n := f64_of_int ops (decimal_value ds)\<rparr>)"
    by simp
  moreover have "dropWhile is_ws (w @ ds @ x # rest) = dropWhile is_ws (ds @ x # rest)"
    using assms(2) by (rule dropWhile_ws_append)
  ultimately show ?thesis
    by (simp only: LeptParse_eq)
qed

text \<open>
  Claim C6 at two failing inputs. Behind a number the entry parse never gets to skip
  whitespace or to look for remaining input, because the number parser fails on any
  byte behind the number: \<open>1 x\<close> returns \<open>LeptParseInvalidValue\<close>, not
  \<open>LeptParseRootNotSingular\<close>, and the number \<open>1\<close> between blanks returns
  \<open>LeptParseInvalidValue\<close>, not \<open>LeptParseOK\<close>.
\<close>

theorem number_before_text_invalid:
  "LeptParse ops (Some v) ''1 x''
     = Some (LeptParseInvalidValue, v\<lparr>typ := LeptNULL, n := f64_of_int ops 1\<rparr>) \<and>
   LeptParse ops (Some v) '' 1 ''
     = Some (LeptParseInvalidValue, v\<lparr>typ := LeptNULL, n := f64_of_int ops 1\<rparr>)"
proof -
  have one: "int_part ''1''" "decimal_value ''1'' = 1"
    by (simp_all add: int_part_def fits_def digits_def isDigit_def decimal_value_def)
  have blank: "\<not> isDigit (CHR '' '')" "list_all is_ws '' ''" "list_all is_ws []"
    by (simp_all add: isDigit_def is_ws_def)
  from number_before_byte [OF one(1) blank(3) blank(1), of ops v "''x''"]
    number_before_byte [OF one(1) blank(2) blank(1), of ops v "[]"]
  show ?thesis by (simp add: one(2))
qed

end
